theory Spec2Isabelle
  imports Main "HOL-Library.Sublist"
begin

section \<open>The C memory behind an answer\<close>

text \<open>
  The plug-in keeps only pointers to the reply buffers that the XPA library allocates.
  A pointer is an address or \<open>NULL\<close> (\<open>None\<close>); the heap maps every live block to
  its bytes.  An access that C leaves undefined (a dangling or unterminated string, an
  index outside an array) is the error \<open>Fault\<close>; \<open>YError\<close> is Yorick's \<open>y_error\<close>
  with its message and \<open>Abort\<close> is \<open>p_abort\<close>.
\<close>

type_synonym addr = nat
type_synonym ptr = "addr option"
type_synonym heap = "addr \<Rightarrow> char list option"

datatype error = YError string | Abort | Fault

definition NUL :: char where
  "NUL = CHR 0x00"

definition load_cstring :: "heap \<Rightarrow> addr \<Rightarrow> string option" where
  "load_cstring h a =
     (case h a of
        None \<Rightarrow> None
      | Some bs \<Rightarrow> if NUL \<in> set bs then Some (takeWhile (\<lambda>c. c \<noteq> NUL) bs) else None)"

definition nth_opt :: "'a list \<Rightarrow> nat \<Rightarrow> 'a option" where
  "nth_opt xs i = (if i < length xs then Some (xs ! i) else None)"

text \<open>
  \<open>strncmp\<close> on the contents of two C strings (the bytes before the terminator, so
  the end of the list stands for the terminating NUL).
\<close>

fun strncmp :: "string \<Rightarrow> string \<Rightarrow> nat \<Rightarrow> int" where
  "strncmp s t 0 = 0"
| "strncmp [] [] (Suc n) = 0"
| "strncmp [] (y # ys) (Suc n) = - int (of_char y)"
| "strncmp (x # xs) [] (Suc n) = int (of_char x)"
| "strncmp (x # xs) (y # ys) (Suc n) =
     (if x = y then strncmp xs ys n else int (of_char x) - int (of_char y))"

definition IS_ERROR :: "string \<Rightarrow> bool" where
  "IS_ERROR str = (strncmp str ''XPA$ERROR'' 9 = 0)"

definition IS_MESSAGE :: "string \<Rightarrow> bool" where
  "IS_MESSAGE str = (strncmp str ''XPA$MESSAGE'' 11 = 0)"

section \<open>The XPAData object\<close>

text \<open>
  \<open>xpadata_t\<close>: four parallel arrays of \<open>replies\<close> slots each and the three cached
  counts, where a negative count means "not yet counted".
\<close>

record xpadata =
  lens :: "nat list"
  bufs :: "ptr list"
  srvs :: "ptr list"
  msgs :: "ptr list"
  replies :: int
  buffers :: int
  messages :: int
  errors :: int

subsection \<open>The lazily counted members\<close>

function get_buffers_loop :: "xpadata \<Rightarrow> nat \<Rightarrow> int \<Rightarrow> error + int" where
  "get_buffers_loop obj i n =
     (if int i < replies obj then
        (case nth_opt (bufs obj) i of
           None \<Rightarrow> Inl Fault
         | Some b \<Rightarrow> get_buffers_loop obj (Suc i) (if b \<noteq> None then n + 1 else n))
      else Inr n)"
  by pat_completeness auto
termination
  by (relation "measure (\<lambda>(obj, i, n). nat (replies obj) - i)") auto

declare get_buffers_loop.simps [simp del]

definition get_buffers :: "xpadata \<Rightarrow> error + (int \<times> xpadata)" where
  "get_buffers obj =
     (if buffers obj < 0 then
        (case get_buffers_loop obj 0 0 of
           Inl e \<Rightarrow> Inl e
         | Inr n \<Rightarrow> Inr (n, obj\<lparr>buffers := n\<rparr>))
      else Inr (buffers obj, obj))"

text \<open>
  The test \<open>msgs[i] != NULL && IS_ERROR(msgs[i])\<close> of the two other scans: the
  string is read only behind a non-null pointer.
\<close>

definition tagged :: "(string \<Rightarrow> bool) \<Rightarrow> heap \<Rightarrow> ptr \<Rightarrow> error + bool" where
  "tagged tag h p =
     (case p of
        None \<Rightarrow> Inr False
      | Some a \<Rightarrow> (case load_cstring h a of None \<Rightarrow> Inl Fault | Some s \<Rightarrow> Inr (tag s)))"

function get_errors_loop :: "heap \<Rightarrow> xpadata \<Rightarrow> nat \<Rightarrow> int \<Rightarrow> error + int" where
  "get_errors_loop h obj i n =
     (if int i < replies obj then
        (case nth_opt (msgs obj) i of
           None \<Rightarrow> Inl Fault
         | Some m \<Rightarrow>
             (case tagged IS_ERROR h m of
                Inl e \<Rightarrow> Inl e
              | Inr b \<Rightarrow> get_errors_loop h obj (Suc i) (if b then n + 1 else n)))
      else Inr n)"
  by pat_completeness auto
termination
  by (relation "measure (\<lambda>(h, obj, i, n). nat (replies obj) - i)") auto

declare get_errors_loop.simps [simp del]

definition get_errors :: "heap \<Rightarrow> xpadata \<Rightarrow> error + (int \<times> xpadata)" where
  "get_errors h obj =
     (if errors obj < 0 then
        (case get_errors_loop h obj 0 0 of
           Inl e \<Rightarrow> Inl e
         | Inr n \<Rightarrow> Inr (n, obj\<lparr>errors := n\<rparr>))
      else Inr (errors obj, obj))"

function get_messages_loop :: "heap \<Rightarrow> xpadata \<Rightarrow> nat \<Rightarrow> int \<Rightarrow> error + int" where
  "get_messages_loop h obj i n =
     (if int i < replies obj then
        (case nth_opt (msgs obj) i of
           None \<Rightarrow> Inl Fault
         | Some m \<Rightarrow>
             (case tagged IS_MESSAGE h m of
                Inl e \<Rightarrow> Inl e
              | Inr b \<Rightarrow> get_messages_loop h obj (Suc i) (if b then n + 1 else n)))
      else Inr n)"
  by pat_completeness auto
termination
  by (relation "measure (\<lambda>(h, obj, i, n). nat (replies obj) - i)") auto

declare get_messages_loop.simps [simp del]

definition get_messages :: "heap \<Rightarrow> xpadata \<Rightarrow> error + (int \<times> xpadata)" where
  "get_messages h obj =
     (if messages obj < 0 then
        (case get_messages_loop h obj 0 0 of
           Inl e \<Rightarrow> Inl e
         | Inr n \<Rightarrow> Inr (n, obj\<lparr>messages := n\<rparr>))
      else Inr (messages obj, obj))"

section \<open>The interpreter's side\<close>

text \<open>
  What the plug-in reads of an argument on Yorick's stack: its type identifier
  (\<open>yarg_typeid\<close>), its rank (\<open>yarg_rank\<close>, 0 for a scalar), its value as a long
  (\<open>ygets_l\<close>) or as a string (\<open>ygets_q\<close>), and for an array its number of elements and
  its memory (\<open>ygeta_any\<close>).  The type identifiers are the constants of Yorick's
  \<open>yapi.h\<close>.
\<close>

record yarg =
  arg_typeid :: int
  arg_rank :: int
  arg_long :: int
  arg_q :: "string option"
  arg_ntot :: nat
  arg_data :: "char list"

definition Y_CHAR :: int where "Y_CHAR = 0"
definition Y_SHORT :: int where "Y_SHORT = 1"
definition Y_INT :: int where "Y_INT = 2"
definition Y_LONG :: int where "Y_LONG = 3"
definition Y_FLOAT :: int where "Y_FLOAT = 4"
definition Y_DOUBLE :: int where "Y_DOUBLE = 5"
definition Y_COMPLEX :: int where "Y_COMPLEX = 6"
definition Y_STRING :: int where "Y_STRING = 7"
definition Y_VOID :: int where "Y_VOID = 12"

definition IS_INTEGER :: "int \<Rightarrow> bool" where
  "IS_INTEGER tid = (Y_CHAR \<le> tid \<and> tid \<le> Y_LONG)"

definition IS_NUMBER :: "int \<Rightarrow> bool" where
  "IS_NUMBER tid = (Y_CHAR \<le> tid \<and> tid \<le> Y_COMPLEX)"

definition IS_VOID :: "int \<Rightarrow> bool" where
  "IS_VOID tid = (tid = Y_VOID)"

definition IS_STRING :: "int \<Rightarrow> bool" where
  "IS_STRING tid = (tid = Y_STRING)"

text \<open>
  What a call leaves on top of the stack: nil, a long, an int, a scalar string (\<open>None\<close>
  is Yorick's null string), an array of bytes, or the argument that was already there.
\<close>

datatype yval =
    YNil
  | YLongV int
  | YIntV int
  | YStr "string option"
  | YChars "char list"
  | YSame yarg

text \<open>The sizes \<open>sizeof\<close> yields on an LP64 platform.\<close>

definition sizeof_char :: nat where "sizeof_char = 1"
definition sizeof_short :: nat where "sizeof_short = 2"
definition sizeof_int :: nat where "sizeof_int = 4"
definition sizeof_long :: nat where "sizeof_long = 8"
definition sizeof_float :: nat where "sizeof_float = 4"
definition sizeof_double :: nat where "sizeof_double = 8"

text \<open>\<open>memcpy\<close>'s source: \<open>len\<close> bytes behind a pointer.\<close>

definition load_bytes :: "heap \<Rightarrow> ptr \<Rightarrow> nat \<Rightarrow> char list option" where
  "load_bytes h p len =
     (case p of
        None \<Rightarrow> None
      | Some a \<Rightarrow>
          (case h a of
             None \<Rightarrow> None
           | Some bs \<Rightarrow> if len \<le> length bs then Some (take len bs) else None))"

text \<open>
  \<open>push_string\<close> copies the string, or \<open>len\<close> bytes of it, and terminates the copy;
  the string that Yorick then holds ends at the first NUL of the copy.
\<close>

definition push_string :: "heap \<Rightarrow> ptr \<Rightarrow> int \<Rightarrow> error + yval" where
  "push_string h str len =
     (if len = - 1 then
        (case str of
           None \<Rightarrow> Inr (YStr None)
         | Some a \<Rightarrow>
             (case load_cstring h a of
                None \<Rightarrow> Inl Fault
              | Some s \<Rightarrow> Inr (YStr (Some s))))
      else if len < 0 \<or> (str = None \<and> len \<noteq> 0) then Inl (YError ''invalid string length'')
      else
        (case str of
           None \<Rightarrow> Inr (YStr None)
         | Some a \<Rightarrow>
             (case load_bytes h str (nat len) of
                None \<Rightarrow> Inl Fault
              | Some bs \<Rightarrow> Inr (YStr (Some (takeWhile (\<lambda>c. c \<noteq> NUL) bs))))))"

subsection \<open>Calling the object\<close>

text \<open>The branches of an integer key; \<open>None\<close> when no branch returns.\<close>

definition eval_int_key :: "heap \<Rightarrow> xpadata \<Rightarrow> nat \<Rightarrow> int \<Rightarrow> (error + yval) option" where
  "eval_int_key h obj i k =
     (if k = 0 then
        Some (case nth_opt (msgs obj) i of
                None \<Rightarrow> Inl Fault
              | Some None \<Rightarrow> Inr (YIntV 0)
              | Some (Some a) \<Rightarrow>
                  (case load_cstring h a of
                     None \<Rightarrow> Inl Fault
                   | Some s \<Rightarrow>
                       Inr (YIntV (if IS_MESSAGE s then 1 else if IS_ERROR s then 2 else 0))))
      else if k = 1 then
        Some (case nth_opt (msgs obj) i of
                None \<Rightarrow> Inl Fault
              | Some m \<Rightarrow> push_string h m (- 1))
      else if k = 2 then
        Some (case nth_opt (srvs obj) i of
                None \<Rightarrow> Inl Fault
              | Some s \<Rightarrow> push_string h s (- 1))
      else if k = 3 then
        Some (case (nth_opt (lens obj) i, nth_opt (bufs obj) i) of
                (Some len, Some buf) \<Rightarrow>
                  if len > 0 then
                    (case load_bytes h buf len of
                       None \<Rightarrow> Inl Fault
                     | Some bs \<Rightarrow> Inr (YChars bs))
                  else Inr YNil
              | _ \<Rightarrow> Inl Fault)
      else if k = 4 then
        Some (case (nth_opt (lens obj) i, nth_opt (bufs obj) i) of
                (Some len, Some buf) \<Rightarrow> push_string h buf (int len)
              | _ \<Rightarrow> Inl Fault)
      else None)"

text \<open>The size in bytes of the caller's array, by the \<open>switch\<close> on its type.\<close>

definition array_size :: "int \<Rightarrow> nat \<Rightarrow> error + nat" where
  "array_size typeid ntot =
     (if typeid = Y_CHAR then Inr (ntot * sizeof_char)
      else if typeid = Y_SHORT then Inr (ntot * sizeof_short)
      else if typeid = Y_INT then Inr (ntot * sizeof_int)
      else if typeid = Y_LONG then Inr (ntot * sizeof_long)
      else if typeid = Y_FLOAT then Inr (ntot * sizeof_float)
      else if typeid = Y_DOUBLE then Inr (ntot * sizeof_double)
      else if typeid = Y_COMPLEX then Inr (2 * ntot * sizeof_double)
      else Inl (YError ''invalid array type''))"

definition eval_copy :: "heap \<Rightarrow> xpadata \<Rightarrow> nat \<Rightarrow> yarg \<Rightarrow> error + yval" where
  "eval_copy h obj i arr =
     (case (nth_opt (lens obj) i, nth_opt (bufs obj) i) of
        (Some len, Some buf) \<Rightarrow>
          (case array_size (arg_typeid arr) (arg_ntot arr) of
             Inl e \<Rightarrow> Inl e
           | Inr sz \<Rightarrow>
               if len \<noteq> sz then Inl (YError ''invalid array size'')
               else
                 (case load_bytes h buf len of
                    None \<Rightarrow> Inl Fault
                  | Some bs \<Rightarrow>
                      if len \<le> length (arg_data arr)
                      then Inr (YSame (arr\<lparr>arg_data := bs @ drop len (arg_data arr)\<rparr>))
                      else Inl Fault))
      | _ \<Rightarrow> Inl Fault)"

definition eval_key :: "heap \<Rightarrow> xpadata \<Rightarrow> nat \<Rightarrow> yarg \<Rightarrow> error + yval" where
  "eval_key h obj i a =
     (let typeid = arg_typeid a in
      if typeid = Y_VOID then
        (case nth_opt (lens obj) i of
           None \<Rightarrow> Inl Fault
         | Some len \<Rightarrow> Inr (YLongV (int len)))
      else
        let rank = arg_rank a;
            returned =
              (if rank = 0 \<and> IS_INTEGER typeid then eval_int_key h obj i (arg_long a)
               else None)
        in case returned of
             Some r \<Rightarrow> r
           | None \<Rightarrow>
               if rank > 0 \<and> IS_NUMBER typeid then eval_copy h obj i a
               else Inl (YError ''invalid key value''))"

text \<open>
  \<open>eval_xpadata\<close>.  The arguments are listed in call order, so that \<open>args ! 0\<close> is the
  stack slot \<open>argc - 1\<close> and \<open>args ! 1\<close> the slot below it.
\<close>

definition eval_xpadata :: "heap \<Rightarrow> xpadata \<Rightarrow> yarg list \<Rightarrow> error + yval" where
  "eval_xpadata h obj args =
     (let argc = length args in
      if argc < 1 \<or> argc > 2 then Inl (YError ''expecting 1 or 2 arguments'')
      else
        let a1 = args ! 0 in
        if IS_VOID (arg_typeid a1) \<and> argc = 1 then Inr (YLongV (replies obj))
        else if \<not> IS_INTEGER (arg_typeid a1) \<or> arg_rank a1 \<noteq> 0
        then Inl (YError ''expecting an index'')
        else
          let i0 = arg_long a1;
              i1 = (if i0 \<le> 0 then i0 + replies obj else i0)
          in
          if i1 < 1 \<or> i1 > replies obj then Inl (YError ''out of range index'')
          else
            let i = nat (i1 - 1) in
            if argc = 1 then
              (case nth_opt (msgs obj) i of
                 None \<Rightarrow> Inl Fault
               | Some m \<Rightarrow> push_string h m (- 1))
            else eval_key h obj i (args ! 1))"

subsection \<open>Members and printing\<close>

definition extract_xpadata :: "heap \<Rightarrow> xpadata \<Rightarrow> string \<Rightarrow> error + (yval \<times> xpadata)" where
  "extract_xpadata h obj name =
     (if take 1 name = ''r'' \<and> name = ''replies'' then Inr (YLongV (replies obj), obj)
      else if take 1 name = ''b'' \<and> name = ''buffers'' then
        (case get_buffers obj of Inl e \<Rightarrow> Inl e | Inr (n, obj') \<Rightarrow> Inr (YLongV n, obj'))
      else if take 1 name = ''e'' \<and> name = ''errors'' then
        (case get_errors h obj of Inl e \<Rightarrow> Inl e | Inr (n, obj') \<Rightarrow> Inr (YLongV n, obj'))
      else if take 1 name = ''m'' \<and> name = ''messages'' then
        (case get_messages h obj of Inl e \<Rightarrow> Inl e | Inr (n, obj') \<Rightarrow> Inr (YLongV n, obj'))
      else Inl (YError ''bad XPAData member''))"

text \<open>\<open>sprintf\<close>'s \<open>%d\<close>.\<close>

fun dec_nat :: "nat \<Rightarrow> string" where
  "dec_nat n =
     (if n < 10 then [''0123456789'' ! n]
      else dec_nat (n div 10) @ [''0123456789'' ! (n mod 10)])"

declare dec_nat.simps [simp del]

definition dec_int :: "int \<Rightarrow> string" where
  "dec_int i = (if i < 0 then ''-'' @ dec_nat (nat (- i)) else dec_nat (nat i))"

text \<open>The macro \<open>ARG(n)\<close>: the number and the plural mark of the noun before it.\<close>

definition ARG :: "int \<Rightarrow> string \<times> string" where
  "ARG n = (dec_int n, if n < 2 then '''' else ''s'')"

definition print_xpadata :: "heap \<Rightarrow> xpadata \<Rightarrow> error + (string \<times> xpadata)" where
  "print_xpadata h obj =
     (let replies' = replies obj in
      case get_buffers obj of
        Inl e \<Rightarrow> Inl e
      | Inr (buffers', obj1) \<Rightarrow>
          (case get_errors h obj1 of
             Inl e \<Rightarrow> Inl e
           | Inr (errors', obj2) \<Rightarrow>
               (case get_messages h obj2 of
                  Inl e \<Rightarrow> Inl e
                | Inr (messages', obj3) \<Rightarrow>
                    Inr (''XPAData ('' @ fst (ARG replies') @ '' replie'' @ snd (ARG replies')
                           @ '', '' @ fst (ARG buffers') @ '' buffer'' @ snd (ARG buffers')
                           @ '', '' @ fst (ARG messages') @ '' message'' @ snd (ARG messages')
                           @ '', '' @ fst (ARG errors') @ '' error'' @ snd (ARG errors')
                           @ '')'', obj3))))"

section \<open>The static arrays and the construction of an answer\<close>

text \<open>
  The file-level variables of the plug-in: the four static arrays of \<open>NMAX\<close> slots, the
  number of replies they hold, the persistent connection and the \<open>atexit\<close> flag.
\<close>

definition NMAX :: nat where
  "NMAX = 100"

record statics =
  static_lens :: "nat list"
  static_bufs :: "ptr list"
  static_srvs :: "ptr list"
  static_msgs :: "ptr list"
  static_replies :: int
  client :: "nat option"
  atexit_called :: bool

text \<open>\<open>free\<close> of a block that is not live is undefined.\<close>

definition free :: "heap \<Rightarrow> addr \<Rightarrow> error + heap" where
  "free h a = (if h a = None then Inl Fault else Inr (h(a := None)))"

definition free_ptr :: "heap \<Rightarrow> ptr \<Rightarrow> error + heap" where
  "free_ptr h p = (case p of None \<Rightarrow> Inr h | Some a \<Rightarrow> free h a)"

function clear_loop :: "statics \<times> heap \<Rightarrow> error + statics \<times> heap" where
  "clear_loop (st, h) =
     (if static_replies st > 0 then
        (let i = nat (static_replies st - 1) in
         case (nth_opt (static_bufs st) i, nth_opt (static_srvs st) i,
               nth_opt (static_msgs st) i) of
           (Some buf, Some srv, Some msg) \<Rightarrow>
             (case free_ptr h buf of
                Inl e \<Rightarrow> Inl e
              | Inr h1 \<Rightarrow>
                  (case free_ptr h1 srv of
                     Inl e \<Rightarrow> Inl e
                   | Inr h2 \<Rightarrow>
                       (case free_ptr h2 msg of
                          Inl e \<Rightarrow> Inl e
                        | Inr h3 \<Rightarrow>
                            clear_loop
                              (st\<lparr>static_bufs := (static_bufs st)[i := None],
                                  static_msgs := (static_msgs st)[i := None],
                                  static_srvs := (static_srvs st)[i := None],
                                  static_replies := int i\<rparr>, h3))))
         | _ \<Rightarrow> Inl Fault)
      else Inr (st, h))"
  by pat_completeness auto
termination
  by (relation "measure (\<lambda>(st, h). nat (static_replies st))") auto

declare clear_loop.simps [simp del]

definition clear_static_arrays :: "bool \<Rightarrow> statics \<times> heap \<Rightarrow> error + statics \<times> heap" where
  "clear_static_arrays p_signalling sh =
     (if p_signalling then Inl Abort
      else
        (case clear_loop sh of
           Inl e \<Rightarrow> Inl e
         | Inr (st, h) \<Rightarrow>
             Inr (if static_replies st < 0 then st\<lparr>static_replies := 0\<rparr> else st, h)))"

text \<open>
  The loop of \<open>push_xpadata\<close>.  The object's arrays have one slot per reply, so every
  write of the loop is inside them.
\<close>

function push_loop :: "statics \<Rightarrow> xpadata \<Rightarrow> nat \<Rightarrow> error + statics \<times> xpadata" where
  "push_loop st obj i =
     (if int i < static_replies st then
        (case (nth_opt (static_lens st) i, nth_opt (static_bufs st) i,
               nth_opt (static_srvs st) i, nth_opt (static_msgs st) i) of
           (Some len, Some buf, Some srv, Some msg) \<Rightarrow>
             push_loop
               (st\<lparr>static_bufs := (static_bufs st)[i := None],
                   static_msgs := (static_msgs st)[i := None],
                   static_srvs := (static_srvs st)[i := None]\<rparr>)
               (obj\<lparr>lens := (lens obj)[i := len],
                    bufs := (bufs obj)[i := buf],
                    srvs := (srvs obj)[i := srv],
                    msgs := (msgs obj)[i := msg],
                    replies := replies obj + 1\<rparr>)
               (Suc i)
         | _ \<Rightarrow> Inl Fault)
      else Inr (st\<lparr>static_replies := 0\<rparr>, obj))"
  by pat_completeness auto
termination
  by (relation "measure (\<lambda>(st, obj, i). nat (static_replies st) - i)") auto

declare push_loop.simps [simp del]

definition push_xpadata :: "bool \<Rightarrow> statics \<Rightarrow> error + statics \<times> xpadata" where
  "push_xpadata p_signalling st0 =
     (if p_signalling then Inl Abort
      else
        let st = (if static_replies st0 < 0 then st0\<lparr>static_replies := 0\<rparr> else st0);
            n = nat (static_replies st)
        in push_loop st
             \<lparr>lens = replicate n 0, bufs = replicate n None, srvs = replicate n None,
              msgs = replicate n None, replies = 0, buffers = - 1, messages = - 1,
              errors = - 1\<rparr> 0)"

text \<open>\<open>free_xpadata\<close>, the destructor of the object.\<close>

function free_xpadata_loop :: "xpadata \<Rightarrow> nat \<Rightarrow> heap \<Rightarrow> error + heap" where
  "free_xpadata_loop obj i h =
     (if int i < replies obj then
        (case (nth_opt (bufs obj) i, nth_opt (srvs obj) i, nth_opt (msgs obj) i) of
           (Some buf, Some srv, Some msg) \<Rightarrow>
             (case free_ptr h buf of
                Inl e \<Rightarrow> Inl e
              | Inr h1 \<Rightarrow>
                  (case free_ptr h1 srv of
                     Inl e \<Rightarrow> Inl e
                   | Inr h2 \<Rightarrow>
                       (case free_ptr h2 msg of
                          Inl e \<Rightarrow> Inl e
                        | Inr h3 \<Rightarrow> free_xpadata_loop obj (Suc i) h3)))
         | _ \<Rightarrow> Inl Fault)
      else Inr h)"
  by pat_completeness auto
termination
  by (relation "measure (\<lambda>(obj, i, h). nat (replies obj) - i)") auto

declare free_xpadata_loop.simps [simp del]

definition free_xpadata :: "xpadata \<Rightarrow> heap \<Rightarrow> error + heap" where
  "free_xpadata obj h = free_xpadata_loop obj 0 h"

section \<open>The built-in functions\<close>

text \<open>
  The XPA library and the C runtime are outside the plug-in: \<open>XPAOpen\<close>, \<open>atexit\<close>,
  \<open>XPAGet\<close> and \<open>XPASet\<close> are parameters.  \<open>XPAGet\<close> receives the four static arrays
  and the maximum number of recipients, \<open>XPASet\<close> the data and only the two arrays of
  strings; both return the number of replies with the arrays and heap they leave.
\<close>

type_synonym arrays4 = "ptr list \<times> nat list \<times> ptr list \<times> ptr list"
type_synonym arrays2 = "ptr list \<times> ptr list"

record xpa_library =
  XPAOpen :: "nat option"
  atexit_ok :: bool
  p_signalling :: bool
  XPAGet :: "nat \<Rightarrow> string option \<Rightarrow> string option \<Rightarrow> arrays4 \<Rightarrow> int \<Rightarrow> heap
               \<Rightarrow> int \<times> arrays4 \<times> heap"
  XPASet :: "nat \<Rightarrow> string option \<Rightarrow> string option \<Rightarrow> char list \<Rightarrow> nat \<Rightarrow> arrays2 \<Rightarrow> int
               \<Rightarrow> heap \<Rightarrow> int \<times> arrays2 \<times> heap"

definition connect :: "xpa_library \<Rightarrow> statics \<Rightarrow> error + statics" where
  "connect lib st =
     (if client st = None then
        (case XPAOpen lib of
           None \<Rightarrow> Inl (YError ''failed to open XPA persistent connection'')
         | Some c \<Rightarrow>
             let st1 = st\<lparr>client := Some c\<rparr> in
             if \<not> atexit_called st1 then
               (if \<not> atexit_ok lib then Inl (YError ''atexit() failed'')
                else Inr (st1\<lparr>atexit_called := True\<rparr>))
             else Inr st1)
      else Inr st)"

definition IS_SCALAR_STRING :: "yarg \<Rightarrow> bool" where
  "IS_SCALAR_STRING a = (arg_typeid a = Y_STRING \<and> arg_rank a = 0)"

text \<open>The parsing of the access point and of the command, shared by both built-ins.\<close>

definition parse_apt :: "yarg list \<Rightarrow> error + string option" where
  "parse_apt args =
     (if \<not> IS_SCALAR_STRING (args ! 0) then Inl (YError ''access point must be a string'')
      else Inr (arg_q (args ! 0)))"

definition parse_cmd :: "yarg list \<Rightarrow> error + string option" where
  "parse_cmd args =
     (if length args \<ge> 2 then
        (let typeid = arg_typeid (args ! 1) in
         if IS_STRING typeid \<and> arg_rank (args ! 1) = 0 then Inr (arg_q (args ! 1))
         else if \<not> IS_VOID typeid then Inl (YError ''command must be empty or a string'')
         else Inr None)
      else Inr None)"

definition Y_xpaget ::
  "xpa_library \<Rightarrow> yarg list \<Rightarrow> statics \<times> heap \<Rightarrow> error + (xpadata \<times> statics \<times> heap)" where
  "Y_xpaget lib args sh =
     (let argc = length args; st = fst sh; h = snd sh in
      if argc < 1 \<or> argc > 2 then Inl (YError ''expecting 1 or 2 arguments'')
      else
        case parse_apt args of
          Inl e \<Rightarrow> Inl e
        | Inr apt \<Rightarrow>
        (case parse_cmd args of
           Inl e \<Rightarrow> Inl e
         | Inr cmd \<Rightarrow>
         (case (if client st = None then connect lib st else Inr st) of
            Inl e \<Rightarrow> Inl e
          | Inr st1 \<Rightarrow>
          (case clear_static_arrays (p_signalling lib) (st1, h) of
             Inl e \<Rightarrow> Inl e
           | Inr (st2, h2) \<Rightarrow>
           (case client st2 of
              None \<Rightarrow> Inl Fault
            | Some c \<Rightarrow>
                (case XPAGet lib c apt cmd
                        (static_bufs st2, static_lens st2, static_srvs st2, static_msgs st2)
                        (int NMAX) h2 of
                   (n, (bufs', lens', srvs', msgs'), h3) \<Rightarrow>
                     (case push_xpadata (p_signalling lib)
                             (st2\<lparr>static_bufs := bufs', static_lens := lens',
                                  static_srvs := srvs', static_msgs := msgs',
                                  static_replies := n\<rparr>) of
                        Inl e \<Rightarrow> Inl e
                      | Inr (st4, obj) \<Rightarrow> Inr (obj, st4, h3))))))))"

definition Y_xpaset ::
  "xpa_library \<Rightarrow> yarg list \<Rightarrow> statics \<times> heap \<Rightarrow> error + (xpadata \<times> statics \<times> heap)" where
  "Y_xpaset lib args sh =
     (let argc = length args; st = fst sh; h = snd sh in
      if argc < 1 \<or> argc > 3 then Inl (YError ''expecting 1, 2 or 3 arguments'')
      else
        case parse_apt args of
          Inl e \<Rightarrow> Inl e
        | Inr apt \<Rightarrow>
        (case parse_cmd args of
           Inl e \<Rightarrow> Inl e
         | Inr cmd \<Rightarrow>
         (case (if argc \<ge> 3
                then (case array_size (arg_typeid (args ! 2)) (arg_ntot (args ! 2)) of
                        Inl e \<Rightarrow> Inl e
                      | Inr len \<Rightarrow> Inr (arg_data (args ! 2), len))
                else Inr ([], 0)) of
            Inl e \<Rightarrow> Inl e
          | Inr (buf, len) \<Rightarrow>
          (case (if client st = None then connect lib st else Inr st) of
             Inl e \<Rightarrow> Inl e
           | Inr st1 \<Rightarrow>
           (case clear_static_arrays (p_signalling lib) (st1, h) of
              Inl e \<Rightarrow> Inl e
            | Inr (st2, h2) \<Rightarrow>
            (case client st2 of
               None \<Rightarrow> Inl Fault
             | Some c \<Rightarrow>
                 (case XPASet lib c apt cmd buf len (static_srvs st2, static_msgs st2)
                         (int NMAX) h2 of
                    (n, (srvs', msgs'), h3) \<Rightarrow>
                      (case push_xpadata (p_signalling lib)
                              (st2\<lparr>static_srvs := srvs', static_msgs := msgs',
                                   static_replies := n\<rparr>) of
                         Inl e \<Rightarrow> Inl e
                       | Inr (st4, obj) \<Rightarrow> Inr (obj, st4, h3)))))))))"

section \<open>The interpreted layer: \<open>xpa_check\<close>\<close>

text \<open>
  \<open>xpa_check\<close> is written in Yorick on top of the object.  A scalar long as an argument
  of the object, \<open>strpart(s, 11:)\<close> and the concatenation of Yorick strings (a null
  string counts as an empty one):
\<close>

definition long_arg :: "int \<Rightarrow> yarg" where
  "long_arg v =
     \<lparr>arg_typeid = Y_LONG, arg_rank = 0, arg_long = v, arg_q = None, arg_ntot = 1,
      arg_data = []\<rparr>"

definition strpart_11 :: "yval \<Rightarrow> yval" where
  "strpart_11 v = (case v of YStr s \<Rightarrow> YStr (map_option (drop 10) s) | _ \<Rightarrow> YNil)"

definition ytext :: "yval \<Rightarrow> string" where
  "ytext v = (case v of YStr (Some s) \<Rightarrow> s | _ \<Rightarrow> [])"

definition ycat :: "yval \<Rightarrow> yval \<Rightarrow> yval" where
  "ycat a b = YStr (Some (ytext a @ ytext b))"

function xpa_check_loop ::
  "heap \<Rightarrow> xpadata \<Rightarrow> int \<Rightarrow> int \<Rightarrow> int \<Rightarrow> yval \<Rightarrow> error + yval" where
  "xpa_check_loop h ans replies' i errors' msg =
     (if i \<le> replies' then
        (case eval_xpadata h ans [long_arg i, long_arg 0] of
           Inl e \<Rightarrow> Inl e
         | Inr c \<Rightarrow>
             if c = YIntV 2 then
               (case eval_xpadata h ans [long_arg i, long_arg 1] of
                  Inl e \<Rightarrow> Inl e
                | Inr m \<Rightarrow>
                    let str = strpart_11 m;
                        msg1 = (if msg = YNil then str
                                else ycat msg (ycat (YStr (Some ''; '')) str));
                        errors1 = errors' - 1
                    in if errors1 \<le> 0 then Inr msg1
                       else xpa_check_loop h ans replies' (i + 1) errors1 msg1)
             else xpa_check_loop h ans replies' (i + 1) errors' msg)
      else Inr msg)"
  by pat_completeness auto
termination
  by (relation "measure (\<lambda>(h, ans, replies', i, errors', msg). nat (replies' + 1 - i))") auto

declare xpa_check_loop.simps [simp del]

text \<open>
  \<open>xpa_check\<close>: \<open>am_subroutine\<close> tells how it was called; called as a subroutine it
  raises the message (the error \<open>YError\<close>), called as a function it returns it.
\<close>

definition xpa_check :: "heap \<Rightarrow> xpadata \<Rightarrow> bool \<Rightarrow> bool \<Rightarrow> error + (yval \<times> xpadata)" where
  "xpa_check h ans onlyfirst am_subroutine =
     (case extract_xpadata h ans ''errors'' of
        Inl e \<Rightarrow> Inl e
      | Inr (YLongV errors0, ans1) \<Rightarrow>
          if errors0 > 0 then
            (let errors1 = (if onlyfirst \<and> errors0 > 1 then 1 else errors0) in
             case extract_xpadata h ans1 ''replies'' of
               Inl e \<Rightarrow> Inl e
             | Inr (YLongV replies', ans2) \<Rightarrow>
                 (case xpa_check_loop h ans2 replies' 1 errors1 YNil of
                    Inl e \<Rightarrow> Inl e
                  | Inr msg \<Rightarrow>
                      if am_subroutine then Inl (YError (ytext msg)) else Inr (msg, ans2))
             | Inr _ \<Rightarrow> Inl Fault)
          else Inr (YNil, ans1)
      | Inr _ \<Rightarrow> Inl Fault)"

section \<open>Well-formed answers and the notions of the specification\<close>

text \<open>
  An object is well formed when its four arrays have one slot per reply, as
  \<open>push_xpadata\<close> allocates them; its strings are readable when every non-null pointer
  of the array addresses a live, terminated string, as the XPA library leaves them.
\<close>

definition arrays_ok :: "xpadata \<Rightarrow> bool" where
  "arrays_ok obj =
     (0 \<le> replies obj \<and> length (lens obj) = nat (replies obj)
      \<and> length (bufs obj) = nat (replies obj) \<and> length (srvs obj) = nat (replies obj)
      \<and> length (msgs obj) = nat (replies obj))"

definition message_text :: "heap \<Rightarrow> ptr \<Rightarrow> string option" where
  "message_text h p = (case p of None \<Rightarrow> None | Some a \<Rightarrow> load_cstring h a)"

definition strings_ok :: "heap \<Rightarrow> ptr list \<Rightarrow> bool" where
  "strings_ok h ps = list_all (\<lambda>p. p \<noteq> None \<longrightarrow> message_text h p \<noteq> None) ps"

text \<open>The tags of the specification: a status message that begins with the marker.\<close>

definition error_reply :: "heap \<Rightarrow> ptr \<Rightarrow> bool" where
  "error_reply h p =
     (case message_text h p of None \<Rightarrow> False | Some s \<Rightarrow> prefix ''XPA$ERROR'' s)"

definition normal_reply :: "heap \<Rightarrow> ptr \<Rightarrow> bool" where
  "normal_reply h p =
     (case message_text h p of None \<Rightarrow> False | Some s \<Rightarrow> prefix ''XPA$MESSAGE'' s)"

definition buffer_count :: "xpadata \<Rightarrow> nat" where
  "buffer_count obj = length (filter (\<lambda>p. p \<noteq> None) (bufs obj))"

definition error_count :: "heap \<Rightarrow> xpadata \<Rightarrow> nat" where
  "error_count h obj = length (filter (error_reply h) (msgs obj))"

definition message_count :: "heap \<Rightarrow> xpadata \<Rightarrow> nat" where
  "message_count h obj = length (filter (normal_reply h) (msgs obj))"

text \<open>A cached count is either still to be computed or the count of the records.\<close>

definition caches_ok :: "heap \<Rightarrow> xpadata \<Rightarrow> bool" where
  "caches_ok h obj =
     ((buffers obj < 0 \<or> buffers obj = int (buffer_count obj))
      \<and> (errors obj < 0 \<or> errors obj = int (error_count h obj))
      \<and> (messages obj < 0 \<or> messages obj = int (message_count h obj)))"

text \<open>
  The index a caller gives counts from 1, and from the end when it is not positive.  An
  index argument is a scalar of an integer type.
\<close>

definition resolve_index :: "int \<Rightarrow> int \<Rightarrow> int" where
  "resolve_index n i = (if i \<le> 0 then i + n else i)"

definition index_arg :: "yarg \<Rightarrow> bool" where
  "index_arg a = (IS_INTEGER (arg_typeid a) \<and> arg_rank a = 0)"

definition valid_index :: "xpadata \<Rightarrow> yarg \<Rightarrow> bool" where
  "valid_index obj a =
     (index_arg a \<and> 1 \<le> resolve_index (replies obj) (arg_long a)
      \<and> resolve_index (replies obj) (arg_long a) \<le> replies obj)"

definition slot :: "xpadata \<Rightarrow> yarg \<Rightarrow> nat" where
  "slot obj a = nat (resolve_index (replies obj) (arg_long a) - 1)"

text \<open>
  A numeric array of the caller: its rank is positive, its type numeric, and its memory
  has as many bytes as its type and number of elements say.
\<close>

definition numeric_array :: "yarg \<Rightarrow> bool" where
  "numeric_array arr =
     (arg_rank arr > 0 \<and> IS_NUMBER (arg_typeid arr)
      \<and> array_size (arg_typeid arr) (arg_ntot arr) = Inr (length (arg_data arr)))"

text \<open>The payload of a reply: the \<open>lens\<close> bytes behind its buffer pointer.\<close>

definition payload :: "heap \<Rightarrow> xpadata \<Rightarrow> nat \<Rightarrow> char list option" where
  "payload h obj i = load_bytes h (bufs obj ! i) (lens obj ! i)"

text \<open>
  The summary line.  \<open>count_noun\<close> is a count with its noun as the object prints it;
  \<open>spec_summary\<close> is the line as the specification words it: the four counts with
  their nouns, a noun being singular for the count one and plural otherwise.
\<close>

definition count_noun :: "int \<Rightarrow> string \<Rightarrow> string" where
  "count_noun n w = dec_int n @ '' '' @ w @ (if n < 2 then '''' else ''s'')"

definition spec_noun :: "int \<Rightarrow> string \<Rightarrow> string" where
  "spec_noun n w = dec_int n @ '' '' @ w @ (if n = 1 then '''' else ''s'')"

definition spec_summary :: "int \<Rightarrow> int \<Rightarrow> int \<Rightarrow> int \<Rightarrow> string" where
  "spec_summary n b m e =
     spec_noun n ''replie'' @ '', '' @ spec_noun b ''buffer'' @ '', ''
       @ spec_noun m ''message'' @ '', '' @ spec_noun e ''error''"

text \<open>
  The error messages of an answer, in the order of the replies, each without the ten
  characters of its prefix; a list of messages joined by \<open>"; "\<close>; and the message
  that the loop of \<open>xpa_check\<close> has built after a list of them.
\<close>

fun error_texts :: "heap \<Rightarrow> ptr list \<Rightarrow> string list" where
  "error_texts h [] = []"
| "error_texts h (p # ps) =
     (case message_text h p of
        Some s \<Rightarrow> if prefix ''XPA$ERROR'' s then drop 10 s # error_texts h ps
                  else error_texts h ps
      | None \<Rightarrow> error_texts h ps)"

fun joined :: "string list \<Rightarrow> string" where
  "joined [] = []"
| "joined [x] = x"
| "joined (x # y # ys) = x @ ''; '' @ joined (y # ys)"

fun collect :: "yval \<Rightarrow> string list \<Rightarrow> yval" where
  "collect msg [] = msg"
| "collect msg (x # xs) =
     collect (if msg = YNil then YStr (Some x)
              else ycat msg (ycat (YStr (Some ''; '')) (YStr (Some x)))) xs"

text \<open>
  The static arrays are well formed when each has its \<open>NMAX\<close> slots and the number of
  replies does not exceed them.  The accumulator holds the pointers of its first
  \<open>replies\<close> slots, those that \<open>clear_static_arrays\<close> would free; an answer owns the
  pointers of its arrays, those that \<open>free_xpadata\<close> frees.  \<open>moved_answer\<close> is the
  answer made of the held records in their order, and \<open>emptied\<close> the static arrays
  with the held slots nulled and nothing held.
\<close>

definition statics_ok :: "statics \<Rightarrow> bool" where
  "statics_ok st =
     (length (static_lens st) = NMAX \<and> length (static_bufs st) = NMAX
      \<and> length (static_srvs st) = NMAX \<and> length (static_msgs st) = NMAX
      \<and> static_replies st \<le> int NMAX)"

definition pointers :: "ptr list \<Rightarrow> addr list" where
  "pointers ps = List.map_filter (\<lambda>p. p) ps"

definition held :: "statics \<Rightarrow> addr set" where
  "held st =
     (let n = nat (static_replies st)
      in set (pointers (take n (static_bufs st) @ take n (static_srvs st)
                          @ take n (static_msgs st))))"

definition owned :: "xpadata \<Rightarrow> addr set" where
  "owned obj = set (pointers (bufs obj @ srvs obj @ msgs obj))"

definition moved_answer :: "statics \<Rightarrow> xpadata" where
  "moved_answer st =
     (let n = nat (static_replies st)
      in \<lparr>lens = take n (static_lens st), bufs = take n (static_bufs st),
          srvs = take n (static_srvs st), msgs = take n (static_msgs st),
          replies = int n, buffers = - 1, messages = - 1, errors = - 1\<rparr>)"

definition emptied :: "statics \<Rightarrow> statics" where
  "emptied st =
     (let n = nat (static_replies st)
      in st\<lparr>static_bufs := replicate n None @ drop n (static_bufs st),
             static_msgs := replicate n None @ drop n (static_msgs st),
             static_srvs := replicate n None @ drop n (static_srvs st),
             static_replies := 0\<rparr>)"

subsection \<open>An answer of five replies\<close>

text \<open>
  Five replies: a normal one with four bytes of data, an error without data, a reply
  with a zero-length buffer and neither server nor message, a second error, and a third
  error with two bytes of data.
\<close>

definition cstr :: "string \<Rightarrow> char list" where
  "cstr s = s @ [NUL]"

definition heap5 :: heap where
  "heap5 =
     [10 \<mapsto> ''abcd'', 11 \<mapsto> cstr ''DS9:ds9 7f000001:3941'',
      12 \<mapsto> cstr ''XPA$MESSAGE fits loaded'',
      21 \<mapsto> cstr ''DS9:ds9b 7f000001:3942'',
      22 \<mapsto> cstr ''XPA$ERROR no such file'',
      30 \<mapsto> '''',
      41 \<mapsto> cstr ''DS9:ds9c 7f000001:3943'',
      42 \<mapsto> cstr ''XPA$ERROR bad region'',
      50 \<mapsto> ''xy'', 51 \<mapsto> cstr ''DS9:ds9d 7f000001:3944'',
      52 \<mapsto> cstr ''XPA$ERROR timeout'']"

definition answer5 :: xpadata where
  "answer5 =
     \<lparr>lens = [4, 0, 0, 0, 2],
      bufs = [Some 10, None, Some 30, None, Some 50],
      srvs = [Some 11, Some 21, None, Some 41, Some 51],
      msgs = [Some 12, Some 22, None, Some 42, Some 52],
      replies = 5, buffers = - 1, messages = - 1, errors = - 1\<rparr>"

text \<open>
  An answer of one reply with three bytes of data and a message without a tag, and two
  arrays of a caller: four chars and three shorts.
\<close>

definition heap1 :: heap where
  "heap1 = [60 \<mapsto> ''xyz'', 62 \<mapsto> cstr ''status unknown'']"

definition answer1 :: xpadata where
  "answer1 =
     \<lparr>lens = [3], bufs = [Some 60], srvs = [None], msgs = [Some 62],
      replies = 1, buffers = - 1, messages = - 1, errors = - 1\<rparr>"

definition chars4 :: yarg where
  "chars4 =
     \<lparr>arg_typeid = Y_CHAR, arg_rank = 1, arg_long = 0, arg_q = None, arg_ntot = 4,
      arg_data = ''....''\<rparr>"

definition shorts3 :: yarg where
  "shorts3 =
     \<lparr>arg_typeid = Y_SHORT, arg_rank = 1, arg_long = 0, arg_q = None, arg_ntot = 3,
      arg_data = ''......''\<rparr>"

text \<open>The answer of a request that nobody replied to.\<close>

definition answer0 :: xpadata where
  "answer0 =
     \<lparr>lens = [], bufs = [], srvs = [], msgs = [],
      replies = 0, buffers = - 1, messages = - 1, errors = - 1\<rparr>"

text \<open>Static arrays that hold two replies.\<close>

definition statics2 :: statics where
  "statics2 =
     \<lparr>static_lens = [4, 0] @ replicate 98 0,
      static_bufs = [Some 10, None] @ replicate 98 None,
      static_srvs = [Some 11, Some 21] @ replicate 98 None,
      static_msgs = [Some 12, Some 22] @ replicate 98 None,
      static_replies = 2, client = Some 1, atexit_called = True\<rparr>"

text \<open>
  A first request: a scalar string as the access point, the static arrays as the loader
  zeroes them, and an XPA library behind which two servers answer every access point
  (as many of them as the caller allows).
\<close>

definition string_arg :: "string \<Rightarrow> yarg" where
  "string_arg s =
     \<lparr>arg_typeid = Y_STRING, arg_rank = 0, arg_long = 0, arg_q = Some s, arg_ntot = 1,
      arg_data = []\<rparr>"

definition statics0 :: statics where
  "statics0 =
     \<lparr>static_lens = replicate NMAX 0, static_bufs = replicate NMAX None,
      static_srvs = replicate NMAX None, static_msgs = replicate NMAX None,
      static_replies = 0, client = None, atexit_called = False\<rparr>"

definition two_servers :: xpa_library where
  "two_servers =
     \<lparr>XPAOpen = Some 1, atexit_ok = True, p_signalling = False,
      XPAGet = (\<lambda>c apt cmd (bufs, lens, srvs, msgs) n h.
        if 2 \<le> n then
          (2, (bufs[0 := Some 10, 1 := Some 20], lens[0 := 4, 1 := 2],
               srvs[0 := Some 11, 1 := Some 21], msgs[0 := Some 12, 1 := Some 22]),
           h(10 \<mapsto> ''abcd'', 11 \<mapsto> cstr ''DS9:one'', 12 \<mapsto> cstr ''XPA$MESSAGE ok'',
             20 \<mapsto> ''xy'', 21 \<mapsto> cstr ''DS9:two'', 22 \<mapsto> cstr ''XPA$MESSAGE ok''))
        else if n = 1 then
          (1, (bufs[0 := Some 10], lens[0 := 4], srvs[0 := Some 11], msgs[0 := Some 12]),
           h(10 \<mapsto> ''abcd'', 11 \<mapsto> cstr ''DS9:one'', 12 \<mapsto> cstr ''XPA$MESSAGE ok''))
        else (0, (bufs, lens, srvs, msgs), h)),
      XPASet = (\<lambda>c apt cmd buf len (srvs, msgs) n h.
        if 2 \<le> n then
          (2, (srvs[0 := Some 11, 1 := Some 21], msgs[0 := Some 12, 1 := Some 22]),
           h(11 \<mapsto> cstr ''DS9:one'', 12 \<mapsto> cstr ''XPA$MESSAGE ok'',
             21 \<mapsto> cstr ''DS9:two'', 22 \<mapsto> cstr ''XPA$MESSAGE ok''))
        else if n = 1 then
          (1, (srvs[0 := Some 11], msgs[0 := Some 12]),
           h(11 \<mapsto> cstr ''DS9:one'', 12 \<mapsto> cstr ''XPA$MESSAGE ok''))
        else (0, (srvs, msgs), h))\<rparr>"

text \<open>
  The first \<open>xpa_get\<close> of a session followed by an \<open>xpa_set\<close>, both answered by the
  two servers: the result of the second call.
\<close>

definition set_after_get :: "error + (xpadata \<times> statics \<times> heap)" where
  "set_after_get =
     (case Y_xpaget two_servers [string_arg ''*''] (statics0, Map.empty) of
        Inl e \<Rightarrow> Inl e
      | Inr (obj, st, h) \<Rightarrow> Y_xpaset two_servers [string_arg ''*''] (st, h))"

section \<open>The tags and the scans\<close>

lemma of_char_nat_0: "(of_char c = (0::nat)) = (c = NUL)"
proof -
  have "of_char NUL = (0::nat)" by (simp add: NUL_def)
  then show ?thesis by (metis of_char_eq_iff)
qed

lemma strncmp_0_iff:
  "NUL \<notin> set s \<Longrightarrow> NUL \<notin> set t \<Longrightarrow> (strncmp s t n = 0) = (take n s = take n t)"
  by (induction s t n rule: strncmp.induct) (auto simp: of_char_nat_0)

lemma prefix_take_iff: "prefix xs ys = (take (length xs) ys = xs)"
  by (metis append_eq_conv_conj prefix_def take_is_prefix)

lemma load_cstring_NUL_free: "load_cstring h a = Some s \<Longrightarrow> NUL \<notin> set s"
  by (auto simp: load_cstring_def split: option.splits if_splits dest: set_takeWhileD)

lemma IS_ERROR_prefix: "NUL \<notin> set s \<Longrightarrow> IS_ERROR s = prefix ''XPA$ERROR'' s"
  unfolding IS_ERROR_def
  by (subst strncmp_0_iff) (auto simp: NUL_def prefix_take_iff eval_nat_numeral)

lemma IS_MESSAGE_prefix: "NUL \<notin> set s \<Longrightarrow> IS_MESSAGE s = prefix ''XPA$MESSAGE'' s"
  unfolding IS_MESSAGE_def
  by (subst strncmp_0_iff) (auto simp: NUL_def prefix_take_iff eval_nat_numeral)

lemma tagged_IS_ERROR:
  "p \<noteq> None \<longrightarrow> message_text h p \<noteq> None \<Longrightarrow> tagged IS_ERROR h p = Inr (error_reply h p)"
  by (auto simp: tagged_def error_reply_def message_text_def IS_ERROR_prefix
      load_cstring_NUL_free split: option.splits)

lemma tagged_IS_MESSAGE:
  "p \<noteq> None \<longrightarrow> message_text h p \<noteq> None \<Longrightarrow> tagged IS_MESSAGE h p = Inr (normal_reply h p)"
  by (auto simp: tagged_def normal_reply_def message_text_def IS_MESSAGE_prefix
      load_cstring_NUL_free split: option.splits)

lemma strings_ok_nth:
  "strings_ok h ps \<Longrightarrow> i < length ps \<Longrightarrow> ps ! i \<noteq> None \<longrightarrow> message_text h (ps ! i) \<noteq> None"
  by (simp add: strings_ok_def list_all_length)

lemma get_buffers_loop_count:
  "length (bufs obj) = nat (replies obj) \<Longrightarrow>
   get_buffers_loop obj i n = Inr (n + int (length (filter (\<lambda>p. p \<noteq> None) (drop i (bufs obj)))))"
proof (induction obj i n rule: get_buffers_loop.induct)
  case (1 obj i n)
  show ?case
  proof (cases "int i < replies obj")
    case True
    then have i: "i < length (bufs obj)" using 1(2) by simp
    then have d: "drop i (bufs obj) = bufs obj ! i # drop (Suc i) (bufs obj)"
      by (simp add: Cons_nth_drop_Suc)
    show ?thesis
      using True i 1(1)[OF True, of "bufs obj ! i"] 1(2)
      by (subst get_buffers_loop.simps) (simp add: nth_opt_def d)
  next
    case False
    then have "drop i (bufs obj) = []" using 1(2) by simp
    with False show ?thesis by (subst get_buffers_loop.simps) simp
  qed
qed

lemma get_errors_loop_count:
  "length (msgs obj) = nat (replies obj) \<Longrightarrow> strings_ok h (msgs obj) \<Longrightarrow>
   get_errors_loop h obj i n = Inr (n + int (length (filter (error_reply h) (drop i (msgs obj)))))"
proof (induction h obj i n rule: get_errors_loop.induct)
  case (1 h obj i n)
  show ?case
  proof (cases "int i < replies obj")
    case True
    then have i: "i < length (msgs obj)" using 1(2) by simp
    then have d: "drop i (msgs obj) = msgs obj ! i # drop (Suc i) (msgs obj)"
      by (simp add: Cons_nth_drop_Suc)
    have t: "tagged IS_ERROR h (msgs obj ! i) = Inr (error_reply h (msgs obj ! i))"
      by (rule tagged_IS_ERROR) (rule strings_ok_nth [OF 1(3) i])
    show ?thesis
      using True i t 1(1)[OF True, of "msgs obj ! i" "error_reply h (msgs obj ! i)"] 1(2,3)
      by (subst get_errors_loop.simps) (simp add: nth_opt_def d)
  next
    case False
    then have "drop i (msgs obj) = []" using 1(2) by simp
    with False show ?thesis by (subst get_errors_loop.simps) simp
  qed
qed

lemma get_messages_loop_count:
  "length (msgs obj) = nat (replies obj) \<Longrightarrow> strings_ok h (msgs obj) \<Longrightarrow>
   get_messages_loop h obj i n = Inr (n + int (length (filter (normal_reply h) (drop i (msgs obj)))))"
proof (induction h obj i n rule: get_messages_loop.induct)
  case (1 h obj i n)
  show ?case
  proof (cases "int i < replies obj")
    case True
    then have i: "i < length (msgs obj)" using 1(2) by simp
    then have d: "drop i (msgs obj) = msgs obj ! i # drop (Suc i) (msgs obj)"
      by (simp add: Cons_nth_drop_Suc)
    have t: "tagged IS_MESSAGE h (msgs obj ! i) = Inr (normal_reply h (msgs obj ! i))"
      by (rule tagged_IS_MESSAGE) (rule strings_ok_nth [OF 1(3) i])
    show ?thesis
      using True i t 1(1)[OF True, of "msgs obj ! i" "normal_reply h (msgs obj ! i)"] 1(2,3)
      by (subst get_messages_loop.simps) (simp add: nth_opt_def d)
  next
    case False
    then have "drop i (msgs obj) = []" using 1(2) by simp
    with False show ?thesis by (subst get_messages_loop.simps) simp
  qed
qed

lemma get_buffers_value:
  "arrays_ok obj \<Longrightarrow> caches_ok h obj \<Longrightarrow>
   get_buffers obj = Inr (int (buffer_count obj), obj\<lparr>buffers := int (buffer_count obj)\<rparr>)"
  by (auto simp: get_buffers_def get_buffers_loop_count arrays_ok_def caches_ok_def
      buffer_count_def)

lemma get_errors_value:
  "arrays_ok obj \<Longrightarrow> strings_ok h (msgs obj) \<Longrightarrow> caches_ok h obj \<Longrightarrow>
   get_errors h obj = Inr (int (error_count h obj), obj\<lparr>errors := int (error_count h obj)\<rparr>)"
  by (auto simp: get_errors_def get_errors_loop_count arrays_ok_def caches_ok_def
      error_count_def)

lemma get_messages_value:
  "arrays_ok obj \<Longrightarrow> strings_ok h (msgs obj) \<Longrightarrow> caches_ok h obj \<Longrightarrow>
   get_messages h obj =
     Inr (int (message_count h obj), obj\<lparr>messages := int (message_count h obj)\<rparr>)"
  by (auto simp: get_messages_def get_messages_loop_count arrays_ok_def caches_ok_def
      message_count_def)

subsection \<open>The answer of five replies, evaluated\<close>

lemma load_cstring_cstr:
  "h a = Some (cstr s) \<Longrightarrow> NUL \<notin> set s \<Longrightarrow> load_cstring h a = Some s"
proof -
  assume a: "h a = Some (cstr s)" and n: "NUL \<notin> set s"
  have "takeWhile (\<lambda>c. c \<noteq> NUL) (s @ [NUL]) = s @ takeWhile (\<lambda>c. c \<noteq> NUL) [NUL]"
    by (rule takeWhile_append2) (use n in auto)
  then show ?thesis using a by (simp add: load_cstring_def cstr_def)
qed

lemma answer5_texts:
  "map (message_text heap5) (msgs answer5) =
     [Some ''XPA$MESSAGE fits loaded'', Some ''XPA$ERROR no such file'', None,
      Some ''XPA$ERROR bad region'', Some ''XPA$ERROR timeout'']"
  by (simp add: answer5_def message_text_def heap5_def load_cstring_cstr NUL_def)




subsection \<open>The steps of a call\<close>

lemma int_type_not_void: "IS_INTEGER t \<Longrightarrow> \<not> IS_VOID t \<and> t \<noteq> Y_VOID"
  by (simp add: IS_INTEGER_def IS_VOID_def Y_CHAR_def Y_LONG_def Y_VOID_def)

lemma num_type_not_void: "IS_NUMBER t \<Longrightarrow> t \<noteq> Y_VOID"
  by (simp add: IS_NUMBER_def Y_CHAR_def Y_COMPLEX_def Y_VOID_def)

lemma push_string_message:
  "p \<noteq> None \<longrightarrow> message_text h p \<noteq> None \<Longrightarrow>
   push_string h p (- 1) = Inr (YStr (message_text h p))"
  by (auto simp: push_string_def message_text_def split: option.splits)

lemma slot_less:
  "arrays_ok obj \<Longrightarrow> valid_index obj a \<Longrightarrow> slot obj a < nat (replies obj)"
  by (auto simp: arrays_ok_def valid_index_def slot_def)

lemma eval_two_args:
  assumes "arrays_ok obj" and "valid_index obj a"
  shows "eval_xpadata h obj [a, k] = eval_key h obj (slot obj a) k"
  using assms int_type_not_void [of "arg_typeid a"]
  by (auto simp: eval_xpadata_def Let_def valid_index_def index_arg_def slot_def
      resolve_index_def)

lemma eval_key_int:
  assumes "index_arg k"
  shows "eval_key h obj i k =
           (case eval_int_key h obj i (arg_long k) of
              Some r \<Rightarrow> r | None \<Rightarrow> Inl (YError ''invalid key value''))"
  using assms int_type_not_void [of "arg_typeid k"]
  by (auto simp: eval_key_def Let_def index_arg_def split: option.splits)

lemma eval_key_3:
  assumes "i < length (lens obj)" and "i < length (bufs obj)"
  shows "eval_int_key h obj i 3 =
           Some (if lens obj ! i > 0
                 then (case load_bytes h (bufs obj ! i) (lens obj ! i) of
                         None \<Rightarrow> Inl Fault | Some bs \<Rightarrow> Inr (YChars bs))
                 else Inr YNil)"
  using assms by (simp add: eval_int_key_def nth_opt_def)

lemma eval_key_array:
  assumes "numeric_array arr"
  shows "eval_key h obj i arr = eval_copy h obj i arr"
  using assms num_type_not_void [of "arg_typeid arr"]
  by (auto simp: eval_key_def Let_def numeric_array_def)

subsection \<open>The cached counts keep an object well formed\<close>

lemma counts_upd [simp]:
  "buffer_count (obj\<lparr>buffers := x\<rparr>) = buffer_count obj"
  "buffer_count (obj\<lparr>errors := x\<rparr>) = buffer_count obj"
  "buffer_count (obj\<lparr>messages := x\<rparr>) = buffer_count obj"
  "error_count h (obj\<lparr>buffers := x\<rparr>) = error_count h obj"
  "error_count h (obj\<lparr>errors := x\<rparr>) = error_count h obj"
  "error_count h (obj\<lparr>messages := x\<rparr>) = error_count h obj"
  "message_count h (obj\<lparr>buffers := x\<rparr>) = message_count h obj"
  "message_count h (obj\<lparr>errors := x\<rparr>) = message_count h obj"
  "message_count h (obj\<lparr>messages := x\<rparr>) = message_count h obj"
  by (simp_all add: buffer_count_def error_count_def message_count_def)

lemma arrays_ok_upd [simp]:
  "arrays_ok (obj\<lparr>buffers := x\<rparr>) = arrays_ok obj"
  "arrays_ok (obj\<lparr>errors := x\<rparr>) = arrays_ok obj"
  "arrays_ok (obj\<lparr>messages := x\<rparr>) = arrays_ok obj"
  by (simp_all add: arrays_ok_def)

lemma caches_ok_upd:
  "caches_ok h obj \<Longrightarrow> caches_ok h (obj\<lparr>buffers := int (buffer_count obj)\<rparr>)"
  "caches_ok h obj \<Longrightarrow> caches_ok h (obj\<lparr>errors := int (error_count h obj)\<rparr>)"
  "caches_ok h obj \<Longrightarrow> caches_ok h (obj\<lparr>messages := int (message_count h obj)\<rparr>)"
  by (simp_all add: caches_ok_def)

lemma print_xpadata_steps:
  assumes "arrays_ok obj" and "strings_ok h (msgs obj)" and "caches_ok h obj"
  shows "print_xpadata h obj =
           Inr (''XPAData ('' @ fst (ARG (replies obj)) @ '' replie'' @ snd (ARG (replies obj))
                  @ '', '' @ fst (ARG (int (buffer_count obj))) @ '' buffer''
                  @ snd (ARG (int (buffer_count obj)))
                  @ '', '' @ fst (ARG (int (message_count h obj))) @ '' message''
                  @ snd (ARG (int (message_count h obj)))
                  @ '', '' @ fst (ARG (int (error_count h obj))) @ '' error''
                  @ snd (ARG (int (error_count h obj))) @ '')'',
                obj\<lparr>buffers := int (buffer_count obj), errors := int (error_count h obj),
                    messages := int (message_count h obj)\<rparr>)"
proof -
  let ?o1 = "obj\<lparr>buffers := int (buffer_count obj)\<rparr>"
  let ?o2 = "?o1\<lparr>errors := int (error_count h obj)\<rparr>"
  have b: "get_buffers obj = Inr (int (buffer_count obj), ?o1)"
    by (rule get_buffers_value [OF assms(1,3)])
  have c1: "caches_ok h ?o1" by (rule caches_ok_upd(1) [OF assms(3)])
  have e: "get_errors h ?o1 = Inr (int (error_count h obj), ?o2)"
    using get_errors_value [of ?o1 h] assms(1,2) c1 by simp
  have c2: "caches_ok h ?o2" using caches_ok_upd(2) [OF c1] by simp
  have m: "get_messages h ?o2
             = Inr (int (message_count h obj), ?o2\<lparr>messages := int (message_count h obj)\<rparr>)"
    using get_messages_value [of ?o2 h] assms(1,2) c2 by simp
  show ?thesis by (simp add: print_xpadata_def Let_def b e m)
qed

lemma long_arg_index: "index_arg (long_arg v)"
  by (simp add: index_arg_def long_arg_def IS_INTEGER_def Y_CHAR_def Y_LONG_def)

lemma long_arg_long: "arg_long (long_arg v) = v"
  by (simp add: long_arg_def)

subsection \<open>The loop of \<open>xpa_check\<close>\<close>

lemma eval_class:
  assumes "arrays_ok obj" and "strings_ok h (msgs obj)" and "valid_index obj a"
    and "index_arg k" and "arg_long k = 0"
  shows "eval_xpadata h obj [a, k] =
           Inr (YIntV (case message_text h (msgs obj ! slot obj a) of
                         None \<Rightarrow> 0
                       | Some s \<Rightarrow>
                           if prefix ''XPA$MESSAGE'' s then 1
                           else if prefix ''XPA$ERROR'' s then 2 else 0))"
proof -
  have l: "slot obj a < length (msgs obj)"
    using slot_less [OF assms(1,3)] assms(1) by (simp add: arrays_ok_def)
  have ok: "msgs obj ! slot obj a \<noteq> None \<longrightarrow> message_text h (msgs obj ! slot obj a) \<noteq> None"
    by (rule strings_ok_nth [OF assms(2) l])
  have "eval_int_key h obj (slot obj a) 0 =
          Some (Inr (YIntV (case message_text h (msgs obj ! slot obj a) of
                         None \<Rightarrow> 0
                       | Some s \<Rightarrow>
                           if prefix ''XPA$MESSAGE'' s then 1
                           else if prefix ''XPA$ERROR'' s then 2 else 0)))"
    using l ok
    by (auto simp: eval_int_key_def nth_opt_def message_text_def IS_MESSAGE_prefix
        IS_ERROR_prefix load_cstring_NUL_free split: option.splits)
  then show ?thesis
    by (simp add: eval_two_args [OF assms(1,3)] eval_key_int [OF assms(4)] assms(5))
qed

lemma eval_message:
  assumes "arrays_ok obj" and "strings_ok h (msgs obj)" and "valid_index obj a"
    and "index_arg k" and "arg_long k = 1"
  shows "eval_xpadata h obj [a, k] = Inr (YStr (message_text h (msgs obj ! slot obj a)))"
proof -
  have l: "slot obj a < length (msgs obj)"
    using slot_less [OF assms(1,3)] assms(1) by (simp add: arrays_ok_def)
  have "push_string h (msgs obj ! slot obj a) (- 1)
          = Inr (YStr (message_text h (msgs obj ! slot obj a)))"
    by (rule push_string_message) (rule strings_ok_nth [OF assms(2) l])
  then show ?thesis
    using l
    by (simp add: eval_two_args [OF assms(1,3)] eval_key_int [OF assms(4)] assms(5)
        eval_int_key_def nth_opt_def)
qed

lemma tags_exclusive: "prefix ''XPA$ERROR'' s \<Longrightarrow> \<not> prefix ''XPA$MESSAGE'' s"
  by (auto simp: prefix_def)

lemma loop_index:
  assumes "arrays_ok obj" and "1 \<le> i" and "i \<le> replies obj"
  shows "valid_index obj (long_arg i) \<and> slot obj (long_arg i) = nat (i - 1)
       \<and> nat (i - 1) < length (msgs obj)"
  using assms
  by (auto simp: valid_index_def slot_def long_arg_index long_arg_long resolve_index_def
      arrays_ok_def)

lemma error_texts_step:
  "strings_ok h ps \<Longrightarrow> j < length ps \<Longrightarrow>
   error_texts h (drop j ps) =
     (case message_text h (ps ! j) of
        Some s \<Rightarrow> if prefix ''XPA$ERROR'' s then drop 10 s # error_texts h (drop (Suc j) ps)
                  else error_texts h (drop (Suc j) ps)
      | None \<Rightarrow> error_texts h (drop (Suc j) ps))"
  by (simp add: Cons_nth_drop_Suc [symmetric])

lemma xpa_check_loop_collects:
  "arrays_ok obj \<Longrightarrow> strings_ok h (msgs obj) \<Longrightarrow> 1 \<le> i \<Longrightarrow> 1 \<le> e \<Longrightarrow> n = replies obj \<Longrightarrow>
   xpa_check_loop h obj n i e msg =
     Inr (collect msg (take (nat e) (error_texts h (drop (nat (i - 1)) (msgs obj)))))"
proof (induction h obj n i e msg rule: xpa_check_loop.induct)
  case (1 h ans replies' i errors' msg)
  note ok = "1.prems"(1,2)
  show ?case
  proof (cases "i \<le> replies'")
    case False
    then have "drop (nat (i - 1)) (msgs ans) = []"
      using "1.prems" by (simp add: arrays_ok_def)
    with False show ?thesis by (subst xpa_check_loop.simps) simp
  next
    case True
    then have ix: "valid_index ans (long_arg i)" "slot ans (long_arg i) = nat (i - 1)"
      "nat (i - 1) < length (msgs ans)"
      using loop_index [of ans i] "1.prems" by simp_all
    let ?p = "msgs ans ! nat (i - 1)"
    let ?c = "YIntV (case message_text h ?p of
                         None \<Rightarrow> 0
                       | Some s \<Rightarrow>
                           if prefix ''XPA$MESSAGE'' s then 1
                           else if prefix ''XPA$ERROR'' s then 2 else 0)"
    have c: "eval_xpadata h ans [long_arg i, long_arg 0] = Inr ?c"
      using eval_class [OF ok ix(1) long_arg_index long_arg_long] ix(2) by simp
    have m: "eval_xpadata h ans [long_arg i, long_arg 1] = Inr (YStr (message_text h ?p))"
      using eval_message [OF ok ix(1) long_arg_index long_arg_long] ix(2) by simp
    have nxt: "Suc (nat (i - 1)) = nat i" using "1.prems"(3) by simp
    have step: "error_texts h (drop (nat (i - 1)) (msgs ans)) =
      (case message_text h ?p of
        Some s \<Rightarrow> if prefix ''XPA$ERROR'' s
                  then drop 10 s # error_texts h (drop (Suc (nat (i - 1))) (msgs ans))
                  else error_texts h (drop (Suc (nat (i - 1))) (msgs ans))
      | None \<Rightarrow> error_texts h (drop (Suc (nat (i - 1))) (msgs ans)))"
      by (rule error_texts_step [OF ok(2) ix(3)])
    show ?thesis
    proof (cases "?c = YIntV 2")
      case False
      then have skip: "error_texts h (drop (nat (i - 1)) (msgs ans))
                         = error_texts h (drop (Suc (nat (i - 1))) (msgs ans))"
        unfolding step by (auto split: option.splits if_splits dest: tags_exclusive)
      have "xpa_check_loop h ans replies' (i + 1) errors' msg =
              Inr (collect msg (take (nat errors')
                     (error_texts h (drop (nat (i + 1 - 1)) (msgs ans)))))"
        using "1.IH"(2) [OF True c False ok] "1.prems"(3,4,5) by simp
      then show ?thesis
        using True c False
        by (subst xpa_check_loop.simps) (simp add: skip nxt)
    next
      case is_err: True
      then obtain s where s: "message_text h ?p = Some s" "prefix ''XPA$ERROR'' s"
        by (auto split: option.splits if_splits)
      have here: "error_texts h (drop (nat (i - 1)) (msgs ans))
                    = drop 10 s # error_texts h (drop (Suc (nat (i - 1))) (msgs ans))"
        unfolding step using s by simp
      have str: "YStr (Some (drop 10 s)) = strpart_11 (YStr (message_text h ?p))"
        using s by (simp add: strpart_11_def)
      define msg1 where "msg1 = (if msg = YNil then YStr (Some (drop 10 s))
                                 else ycat msg (ycat (YStr (Some ''; '')) (YStr (Some (drop 10 s)))))"
      have unfold: "xpa_check_loop h ans replies' i errors' msg =
                      (if errors' - 1 \<le> 0 then Inr msg1
                       else xpa_check_loop h ans replies' (i + 1) (errors' - 1) msg1)"
        using \<open>i \<le> replies'\<close> c is_err m
        by (subst xpa_check_loop.simps) (simp add: str [symmetric] Let_def msg1_def)
      show ?thesis
      proof (cases "errors' - 1 \<le> 0")
        case True
        then have e1: "nat errors' = Suc 0" using "1.prems"(4) by simp
        show ?thesis
          unfolding unfold using True by (simp add: here e1 msg1_def)
      next
        case False
        then have e2: "nat errors' = Suc (nat (errors' - 1))" by simp
        have "xpa_check_loop h ans replies' (i + 1) (errors' - 1) msg1 =
                Inr (collect msg1 (take (nat (errors' - 1))
                       (error_texts h (drop (nat (i + 1 - 1)) (msgs ans)))))"
          using "1.IH"(1) [OF \<open>i \<le> replies'\<close> c is_err m str msg1_def refl False ok]
            "1.prems"(3,5) False by simp
        then show ?thesis
          unfolding unfold using False by (simp add: here e2 msg1_def nxt)
      qed
    qed
  qed
qed

lemma length_error_texts: "length (error_texts h ps) = length (filter (error_reply h) ps)"
  by (induction ps) (auto simp: error_reply_def split: option.splits)

lemma collect_text:
  "collect (YStr (Some m)) xs = YStr (Some (m @ concat (map (\<lambda>x. ''; '' @ x) xs)))"
  by (induction xs arbitrary: m) (simp_all add: ycat_def ytext_def)

lemma joined_Cons: "joined (x # xs) = x @ concat (map (\<lambda>y. ''; '' @ y) xs)"
  by (induction xs arbitrary: x) simp_all

lemma collect_joined: "xs \<noteq> [] \<Longrightarrow> collect YNil xs = YStr (Some (joined xs))"
  by (cases xs) (simp_all add: collect_text joined_Cons)

lemma xpa_check_value:
  assumes "arrays_ok obj" and "strings_ok h (msgs obj)" and "caches_ok h obj"
    and "error_count h obj > 0"
  shows "xpa_check h obj onlyfirst am_subroutine =
           (let texts = (if onlyfirst then [hd (error_texts h (msgs obj))]
                         else error_texts h (msgs obj))
            in if am_subroutine then Inl (YError (joined texts))
               else Inr (YStr (Some (joined texts)), obj\<lparr>errors := int (error_count h obj)\<rparr>))"
proof -
  let ?o = "obj\<lparr>errors := int (error_count h obj)\<rparr>"
  let ?xs = "error_texts h (msgs obj)"
  let ?e = "if onlyfirst \<and> int (error_count h obj) > 1 then 1 else int (error_count h obj)"
  have len: "length ?xs = error_count h obj"
    by (simp add: length_error_texts error_count_def)
  then have ne: "?xs \<noteq> []" using assms(4) by auto
  have ex: "extract_xpadata h obj ''errors'' = Inr (YLongV (int (error_count h obj)), ?o)"
    using assms(1-3) by (simp add: extract_xpadata_def get_errors_value)
  have rp: "extract_xpadata h ?o ''replies'' = Inr (YLongV (replies obj), ?o)"
    by (simp add: extract_xpadata_def)
  have ok: "arrays_ok ?o" "strings_ok h (msgs ?o)" using assms(1,2) by simp_all
  have e: "1 \<le> ?e" using assms(4) by simp
  have loop: "xpa_check_loop h ?o (replies obj) 1 ?e YNil =
                Inr (collect YNil (take (nat ?e) ?xs))"
    using xpa_check_loop_collects [OF ok _ e, of 1 "replies obj" YNil] by simp
  have tk: "take (nat ?e) ?xs = (if onlyfirst then [hd ?xs] else ?xs)"
  proof (cases ?xs)
    case Nil
    with ne show ?thesis by simp
  next
    case (Cons a list)
    have "list = []" if "\<not> 1 < error_count h obj"
    proof -
      from Cons len have "Suc (length list) = error_count h obj" by simp
      with that have "length list = 0" by linarith
      then show ?thesis by simp
    qed
    with Cons len show ?thesis by auto
  qed
  have res: "xpa_check_loop h ?o (replies obj) 1 ?e YNil =
               Inr (YStr (Some (joined (if onlyfirst then [hd ?xs] else ?xs))))"
    unfolding loop tk using ne by (simp add: collect_joined)
  show ?thesis
    using assms(4) res
    by (simp add: xpa_check_def ex rp Let_def ytext_def)
qed

lemma xpa_check_nothing:
  assumes "arrays_ok obj" and "strings_ok h (msgs obj)" and "caches_ok h obj"
    and "error_count h obj = 0"
  shows "xpa_check h obj onlyfirst am_subroutine = Inr (YNil, obj\<lparr>errors := 0\<rparr>)"
  using assms by (simp add: xpa_check_def extract_xpadata_def get_errors_value)

subsection \<open>The loop of \<open>push_xpadata\<close>\<close>

lemma null_slot:
  assumes "i < n" and "n \<le> length xs"
  shows "take (Suc i) (xs[i := None]) @ replicate (n - Suc i) None @ drop n (xs[i := None])
           = take i xs @ replicate (n - i) None @ drop n xs"
proof -
  have t: "take (Suc i) (xs[i := None]) = take i xs @ [None]"
    using assms by (simp add: take_Suc_conv_app_nth)
  have d: "drop n (xs[i := None]) = drop n xs" using assms by simp
  have r: "replicate (n - i) None = None # replicate (n - Suc i) (None :: 'a option)"
    using assms by (cases "n - i") auto
  show ?thesis by (simp add: t d r)
qed

lemma move_slot:
  assumes "i < n" and "n \<le> length xs" and "i < length ys"
  shows "take (Suc i) (ys[i := xs ! i]) @ drop (Suc i) (take n (xs[i := v]))
           = take i ys @ drop i (take n xs)"
proof -
  have t: "take (Suc i) (ys[i := xs ! i]) = take i ys @ [xs ! i]"
    using assms by (simp add: take_Suc_conv_app_nth)
  have d: "drop (Suc i) (take n (xs[i := v])) = drop (Suc i) (take n xs)"
    using assms by (simp add: take_update_swap)
  have c: "drop i (take n xs) = xs ! i # drop (Suc i) (take n xs)"
    using assms by (simp add: Cons_nth_drop_Suc [symmetric])
  show ?thesis by (simp add: t d c)
qed

lemma push_loop_result:
  "length (static_lens st) = NMAX \<Longrightarrow> length (static_bufs st) = NMAX \<Longrightarrow>
   length (static_srvs st) = NMAX \<Longrightarrow> length (static_msgs st) = NMAX \<Longrightarrow>
   n = nat (static_replies st) \<Longrightarrow> n \<le> NMAX \<Longrightarrow> i \<le> n \<Longrightarrow>
   length (lens obj) = n \<Longrightarrow> length (bufs obj) = n \<Longrightarrow>
   length (srvs obj) = n \<Longrightarrow> length (msgs obj) = n \<Longrightarrow>
   push_loop st obj i =
     Inr (st\<lparr>static_bufs := take i (static_bufs st) @ replicate (n - i) None
                               @ drop n (static_bufs st),
             static_msgs := take i (static_msgs st) @ replicate (n - i) None
                               @ drop n (static_msgs st),
             static_srvs := take i (static_srvs st) @ replicate (n - i) None
                               @ drop n (static_srvs st),
             static_replies := 0\<rparr>,
          obj\<lparr>lens := take i (lens obj) @ drop i (take n (static_lens st)),
              bufs := take i (bufs obj) @ drop i (take n (static_bufs st)),
              srvs := take i (srvs obj) @ drop i (take n (static_srvs st)),
              msgs := take i (msgs obj) @ drop i (take n (static_msgs st)),
              replies := replies obj + int (n - i)\<rparr>)"
proof (induction "n - i" arbitrary: st obj i)
  case 0
  have "i = n" using "0.hyps" "0.prems"(7) by linarith
  then have "\<not> int i < static_replies st" using "0.prems" by simp
  then show ?case
    using \<open>i = n\<close> "0.prems"
    by (subst push_loop.simps) simp
next
  case (Suc k)
  have i: "i < n" using Suc.hyps(2) by linarith
  then have lt: "int i < static_replies st" using Suc.prems by simp
  let ?st1 = "st\<lparr>static_bufs := (static_bufs st)[i := None],
                 static_msgs := (static_msgs st)[i := None],
                 static_srvs := (static_srvs st)[i := None]\<rparr>"
  let ?obj1 = "obj\<lparr>lens := (lens obj)[i := static_lens st ! i],
                  bufs := (bufs obj)[i := static_bufs st ! i],
                  srvs := (srvs obj)[i := static_srvs st ! i],
                  msgs := (msgs obj)[i := static_msgs st ! i],
                  replies := replies obj + 1\<rparr>"
  have rd: "nth_opt (static_lens st) i = Some (static_lens st ! i)"
    "nth_opt (static_bufs st) i = Some (static_bufs st ! i)"
    "nth_opt (static_srvs st) i = Some (static_srvs st ! i)"
    "nth_opt (static_msgs st) i = Some (static_msgs st ! i)"
    using i Suc.prems by (simp_all add: nth_opt_def)
  have step: "push_loop st obj i = push_loop ?st1 ?obj1 (Suc i)"
    using lt by (subst push_loop.simps) (simp add: rd)
  have k: "k = n - Suc i" using Suc.hyps(2) by simp
  have ih: "push_loop ?st1 ?obj1 (Suc i) =
    Inr (?st1\<lparr>static_bufs := take (Suc i) (static_bufs ?st1) @ replicate (n - Suc i) None
                             @ drop n (static_bufs ?st1),
           static_msgs := take (Suc i) (static_msgs ?st1) @ replicate (n - Suc i) None
                             @ drop n (static_msgs ?st1),
           static_srvs := take (Suc i) (static_srvs ?st1) @ replicate (n - Suc i) None
                             @ drop n (static_srvs ?st1),
           static_replies := 0\<rparr>,
        ?obj1\<lparr>lens := take (Suc i) (lens ?obj1) @ drop (Suc i) (take n (static_lens ?st1)),
            bufs := take (Suc i) (bufs ?obj1) @ drop (Suc i) (take n (static_bufs ?st1)),
            srvs := take (Suc i) (srvs ?obj1) @ drop (Suc i) (take n (static_srvs ?st1)),
            msgs := take (Suc i) (msgs ?obj1) @ drop (Suc i) (take n (static_msgs ?st1)),
            replies := replies ?obj1 + int (n - Suc i)\<rparr>)"
    using Suc.prems i by (intro Suc.hyps(1) [OF k]) simp_all
  have n: "n \<le> length (static_bufs st)" "n \<le> length (static_srvs st)"
    "n \<le> length (static_msgs st)" "n \<le> length (static_lens st)"
    using Suc.prems by simp_all
  have il: "i < length (lens obj)" "i < length (bufs obj)" "i < length (srvs obj)"
    "i < length (msgs obj)"
    using Suc.prems i by simp_all
  have cnt: "replies obj + 1 + int (n - Suc i) = replies obj + int (n - i)"
    using i by simp
  have lens_eq: "take (Suc i) ((lens obj)[i := static_lens st ! i])
                   @ drop (Suc i) (take n (static_lens st))
                 = take i (lens obj) @ drop i (take n (static_lens st))"
    using move_slot [OF i n(4) il(1), of "static_lens st ! i"] by simp
  show ?case
    unfolding step ih
    by (simp add: null_slot [OF i n(1)] null_slot [OF i n(2)] null_slot [OF i n(3)]
        move_slot [OF i n(1) il(2)] move_slot [OF i n(2) il(3)] move_slot [OF i n(3) il(4)]
        lens_eq cnt)
qed

lemma push_xpadata_result:
  assumes "statics_ok st"
  shows "push_xpadata False st = Inr (emptied st, moved_answer st)"
proof -
  let ?st = "if static_replies st < 0 then st\<lparr>static_replies := 0\<rparr> else st"
  let ?n = "nat (static_replies st)"
  let ?obj = "\<lparr>lens = replicate ?n 0, bufs = replicate ?n None, srvs = replicate ?n None,
              msgs = replicate ?n None, replies = 0, buffers = - 1, messages = - 1,
              errors = - 1\<rparr>"
  have n: "nat (static_replies ?st) = ?n" by simp
  have "push_loop ?st ?obj 0 =
     Inr (?st\<lparr>static_bufs := take 0 (static_bufs ?st) @ replicate (?n - 0) None
                               @ drop ?n (static_bufs ?st),
             static_msgs := take 0 (static_msgs ?st) @ replicate (?n - 0) None
                               @ drop ?n (static_msgs ?st),
             static_srvs := take 0 (static_srvs ?st) @ replicate (?n - 0) None
                               @ drop ?n (static_srvs ?st),
             static_replies := 0\<rparr>,
          ?obj\<lparr>lens := take 0 (lens ?obj) @ drop 0 (take ?n (static_lens ?st)),
              bufs := take 0 (bufs ?obj) @ drop 0 (take ?n (static_bufs ?st)),
              srvs := take 0 (srvs ?obj) @ drop 0 (take ?n (static_srvs ?st)),
              msgs := take 0 (msgs ?obj) @ drop 0 (take ?n (static_msgs ?st)),
              replies := replies ?obj + int (?n - 0)\<rparr>)"
    using assms by (intro push_loop_result) (auto simp: statics_ok_def)
  then show ?thesis
    by (auto simp: push_xpadata_def Let_def emptied_def moved_answer_def)
qed

lemma clear_nothing_held:
  "static_replies st = 0 \<Longrightarrow> clear_static_arrays False (st, h) = Inr (st, h)"
  by (simp add: clear_static_arrays_def clear_loop.simps)

lemma emptied_slots:
  "i < nat (static_replies st) \<Longrightarrow>
   static_bufs (emptied st) ! i = None \<and> static_srvs (emptied st) ! i = None
   \<and> static_msgs (emptied st) ! i = None"
  by (simp add: emptied_def Let_def nth_append)

subsection \<open>A first request\<close>

lemma moved_answer_replies: "replies (moved_answer st) = int (nat (static_replies st))"
  by (simp add: moved_answer_def Let_def)

lemma string_arg_scalar: "IS_SCALAR_STRING (string_arg s) \<and> arg_q (string_arg s) = Some s"
  by (simp add: IS_SCALAR_STRING_def string_arg_def)

lemma Y_xpaget_max_recipients:
  assumes "IS_SCALAR_STRING a" and "client st = None" and "XPAOpen lib = Some c"
    and "atexit_ok lib" and "\<not> p_signalling lib" and "static_replies st = 0"
    and "XPAGet lib c (arg_q a) None
           (static_bufs st, static_lens st, static_srvs st, static_msgs st) (int NMAX) h
         = (n, (bufs', lens', srvs', msgs'), h')"
    and "statics_ok (st\<lparr>client := Some c, atexit_called := True, static_bufs := bufs',
                        static_lens := lens', static_srvs := srvs', static_msgs := msgs',
                        static_replies := n\<rparr>)"
  shows "\<exists>st4 obj. Y_xpaget lib [a] (st, h) = Inr (obj, st4, h') \<and> replies obj = int (nat n)"
proof -
  let ?st1 = "st\<lparr>client := Some c, atexit_called := True\<rparr>"
  let ?st3 = "st\<lparr>client := Some c, atexit_called := True, static_bufs := bufs',
                 static_lens := lens', static_srvs := srvs', static_msgs := msgs',
                 static_replies := n\<rparr>"
  have cn: "connect lib st = Inr ?st1"
    using assms(2-4) by (cases "atexit_called st") (simp_all add: connect_def)
  have cl: "clear_static_arrays (p_signalling lib) (?st1, h) = Inr (?st1, h)"
    using assms(5,6) clear_nothing_held [of ?st1 h] by simp
  have pu: "push_xpadata (p_signalling lib) ?st3 = Inr (emptied ?st3, moved_answer ?st3)"
    using assms(5) push_xpadata_result [OF assms(8)] by simp
  have "Y_xpaget lib [a] (st, h) = Inr (moved_answer ?st3, emptied ?st3, h')"
    using assms(1,2,7) pu
    by (simp add: Y_xpaget_def parse_apt_def parse_cmd_def cn cl)
  then show ?thesis by (simp add: moved_answer_replies)
qed

lemma Y_xpaset_max_recipients:
  assumes "IS_SCALAR_STRING a" and "client st = None" and "XPAOpen lib = Some c"
    and "atexit_ok lib" and "\<not> p_signalling lib" and "static_replies st = 0"
    and "XPASet lib c (arg_q a) None [] 0 (static_srvs st, static_msgs st) (int NMAX) h
         = (n, (srvs', msgs'), h')"
    and "statics_ok (st\<lparr>client := Some c, atexit_called := True, static_srvs := srvs',
                        static_msgs := msgs', static_replies := n\<rparr>)"
  shows "\<exists>st4 obj. Y_xpaset lib [a] (st, h) = Inr (obj, st4, h') \<and> replies obj = int (nat n)"
proof -
  let ?st1 = "st\<lparr>client := Some c, atexit_called := True\<rparr>"
  let ?st3 = "st\<lparr>client := Some c, atexit_called := True, static_srvs := srvs',
                 static_msgs := msgs', static_replies := n\<rparr>"
  have cn: "connect lib st = Inr ?st1"
    using assms(2-4) by (cases "atexit_called st") (simp_all add: connect_def)
  have cl: "clear_static_arrays (p_signalling lib) (?st1, h) = Inr (?st1, h)"
    using assms(5,6) clear_nothing_held [of ?st1 h] by simp
  have pu: "push_xpadata (p_signalling lib) ?st3 = Inr (emptied ?st3, moved_answer ?st3)"
    using assms(5) push_xpadata_result [OF assms(8)] by simp
  have "Y_xpaset lib [a] (st, h) = Inr (moved_answer ?st3, emptied ?st3, h')"
    using assms(1,2,7) pu
    by (simp add: Y_xpaset_def parse_apt_def parse_cmd_def cn cl)
  then show ?thesis by (simp add: moved_answer_replies)
qed

subsection \<open>The answers that \<open>push_xpadata\<close> builds\<close>

text \<open>
  Every answer that \<open>push_xpadata\<close> builds has its arrays in order and its counts still
  to be computed; a pending signal makes it abort instead.
\<close>

lemma moved_answer_well_formed:
  "statics_ok st \<Longrightarrow> arrays_ok (moved_answer st) \<and> caches_ok h (moved_answer st)"
  by (auto simp: statics_ok_def arrays_ok_def caches_ok_def moved_answer_def Let_def)

lemma push_xpadata_interrupted: "push_xpadata True st = Inl Abort"
  by (simp add: push_xpadata_def)

subsection \<open>A request to set after a request to get\<close>

text \<open>
  \<open>XPASet\<close> receives neither \<open>lens\<close> nor \<open>bufs\<close>, and \<open>clear_static_arrays\<close> leaves
  \<open>lens\<close> as it is: the answer of the second call has the lengths that the first call
  stored beside null buffers.
\<close>

lemma Y_xpaget_first:
  assumes "IS_SCALAR_STRING a" and "client st = None" and "XPAOpen lib = Some c"
    and "atexit_ok lib" and "\<not> p_signalling lib" and "static_replies st = 0"
    and "XPAGet lib c (arg_q a) None
           (static_bufs st, static_lens st, static_srvs st, static_msgs st) (int NMAX) h
         = (n, (bufs', lens', srvs', msgs'), h')"
    and "st3 = st\<lparr>client := Some c, atexit_called := True, static_bufs := bufs',
                        static_lens := lens', static_srvs := srvs', static_msgs := msgs',
                        static_replies := n\<rparr>"
    and "statics_ok st3"
  shows "Y_xpaget lib [a] (st, h) = Inr (moved_answer st3, emptied st3, h')"
proof -
  let ?st1 = "st\<lparr>client := Some c, atexit_called := True\<rparr>"
  have cn: "connect lib st = Inr ?st1"
    using assms(2-4) by (cases "atexit_called st") (simp_all add: connect_def)
  have cl: "clear_static_arrays (p_signalling lib) (?st1, h) = Inr (?st1, h)"
    using assms(5,6) clear_nothing_held [of ?st1 h] by simp
  have pu: "push_xpadata (p_signalling lib) st3 = Inr (emptied st3, moved_answer st3)"
    using assms(5) push_xpadata_result [OF assms(9)] by simp
  show ?thesis
    using assms(1,2,7) pu
    by (simp add: Y_xpaget_def parse_apt_def parse_cmd_def cn cl assms(8))
qed

lemma Y_xpaset_next:
  assumes "IS_SCALAR_STRING a" and "client st = Some c" and "\<not> p_signalling lib"
    and "static_replies st = 0"
    and "XPASet lib c (arg_q a) None [] 0 (static_srvs st, static_msgs st) (int NMAX) h
         = (n, (srvs', msgs'), h')"
    and "st3 = st\<lparr>static_srvs := srvs', static_msgs := msgs', static_replies := n\<rparr>"
    and "statics_ok st3"
  shows "Y_xpaset lib [a] (st, h) = Inr (moved_answer st3, emptied st3, h')"
proof -
  have cl: "clear_static_arrays (p_signalling lib) (st, h) = Inr (st, h)"
    using assms(3,4) clear_nothing_held [of st h] by simp
  have pu: "push_xpadata (p_signalling lib) st3 = Inr (emptied st3, moved_answer st3)"
    using assms(3) push_xpadata_result [OF assms(7)] by simp
  show ?thesis
    using assms(1,2,5) pu
    by (simp add: Y_xpaset_def parse_apt_def parse_cmd_def cl assms(6))
qed

lemma emptied_ok: "statics_ok st \<Longrightarrow> statics_ok (emptied st)"
  by (auto simp: statics_ok_def emptied_def Let_def)

lemma replicate_NMAX: "replicate NMAX x = x # x # replicate 98 x"
  by (simp add: NMAX_def numeral_eq_Suc)

lemma set_after_get_value:
  "\<exists>obj st h. set_after_get = Inr (obj, st, h) \<and> replies obj = 2 \<and> lens obj = [4, 2]
     \<and> bufs obj = [None, None] \<and> length (srvs obj) = 2 \<and> length (msgs obj) = 2"
proof -
  define hg :: heap where
    "hg = [10 \<mapsto> ''abcd'', 11 \<mapsto> cstr ''DS9:one'', 12 \<mapsto> cstr ''XPA$MESSAGE ok'',
           20 \<mapsto> ''xy'', 21 \<mapsto> cstr ''DS9:two'', 22 \<mapsto> cstr ''XPA$MESSAGE ok'']"
  define stg where
    "stg = statics0\<lparr>client := Some 1, atexit_called := True,
             static_bufs := (replicate NMAX None)[0 := Some 10, 1 := Some 20],
             static_lens := (replicate NMAX 0)[0 := 4, 1 := 2],
             static_srvs := (replicate NMAX None)[0 := Some 11, 1 := Some 21],
             static_msgs := (replicate NMAX None)[0 := Some 12, 1 := Some 22],
             static_replies := 2\<rparr>"
  have okg: "statics_ok stg" by (simp add: stg_def statics_ok_def NMAX_def)
  have g: "Y_xpaget two_servers [string_arg ''*''] (statics0, Map.empty)
             = Inr (moved_answer stg, emptied stg, hg)"
  proof (rule Y_xpaget_first [where c = 1 and n = 2, OF _ _ _ _ _ _ _ stg_def okg])
    show "XPAGet two_servers 1 (arg_q (string_arg ''*'')) None
           (static_bufs statics0, static_lens statics0, static_srvs statics0,
            static_msgs statics0) (int NMAX) Map.empty
          = (2, ((replicate NMAX None)[0 := Some 10, 1 := Some 20],
                 (replicate NMAX 0)[0 := 4, 1 := 2],
                 (replicate NMAX None)[0 := Some 11, 1 := Some 21],
                 (replicate NMAX None)[0 := Some 12, 1 := Some 22]), hg)"
      by (simp add: two_servers_def statics0_def NMAX_def hg_def)
  qed (simp_all add: string_arg_scalar statics0_def two_servers_def)
  define hs :: heap where
    "hs = hg(11 \<mapsto> cstr ''DS9:one'', 12 \<mapsto> cstr ''XPA$MESSAGE ok'',
             21 \<mapsto> cstr ''DS9:two'', 22 \<mapsto> cstr ''XPA$MESSAGE ok'')"
  define sts where
    "sts = (emptied stg)\<lparr>static_srvs := (static_srvs (emptied stg))[0 := Some 11, 1 := Some 21],
             static_msgs := (static_msgs (emptied stg))[0 := Some 12, 1 := Some 22],
             static_replies := 2\<rparr>"
  have e: "client (emptied stg) = Some 1" "static_replies (emptied stg) = 0"
    "static_lens (emptied stg) = static_lens stg"
    "static_bufs (emptied stg) = replicate 2 None @ drop 2 (static_bufs stg)"
    "length (static_srvs (emptied stg)) = NMAX" "length (static_msgs (emptied stg)) = NMAX"
    by (simp_all add: emptied_def stg_def NMAX_def)
  have oks: "statics_ok sts"
    using emptied_ok [OF okg] by (simp add: sts_def statics_ok_def NMAX_def)
  have s: "Y_xpaset two_servers [string_arg ''*''] (emptied stg, hg)
             = Inr (moved_answer sts, emptied sts, hs)"
  proof (rule Y_xpaset_next [where c = 1 and n = 2, OF _ _ _ _ _ sts_def oks])
    show "XPASet two_servers 1 (arg_q (string_arg ''*'')) None [] 0
           (static_srvs (emptied stg), static_msgs (emptied stg)) (int NMAX) hg
          = (2, ((static_srvs (emptied stg))[0 := Some 11, 1 := Some 21],
                 (static_msgs (emptied stg))[0 := Some 12, 1 := Some 22]), hs)"
      by (simp add: two_servers_def NMAX_def hs_def)
  qed (simp_all add: string_arg_scalar two_servers_def e)
  have v: "set_after_get = Inr (moved_answer sts, emptied sts, hs)"
    by (simp add: set_after_get_def g s)
  have n: "nat (static_replies sts) = 2" by (simp add: sts_def)
  have two: "replicate 2 (None :: ptr) = [None, None]" by (simp add: numeral_2_eq_2)
  have "static_lens sts = static_lens stg" by (simp add: sts_def e)
  moreover have "static_lens stg = 4 # 2 # replicate 98 0"
    by (simp add: stg_def replicate_NMAX)
  ultimately have sl: "static_lens sts = 4 # 2 # replicate 98 0" by simp
  have sb: "static_bufs sts = [None, None] @ drop 2 (static_bufs stg)"
    by (simp add: sts_def e two)
  have ln: "length (static_srvs sts) = NMAX" "length (static_msgs sts) = NMAX"
    using oks by (simp_all add: statics_ok_def)
  have "replies (moved_answer sts) = 2" "lens (moved_answer sts) = [4, 2]"
    "bufs (moved_answer sts) = [None, None]" "length (srvs (moved_answer sts)) = 2"
    "length (msgs (moved_answer sts)) = 2"
    by (simp_all add: moved_answer_def n sl sb ln NMAX_def)
  with v show ?thesis by blast
qed

subsection \<open>The example answers, evaluated\<close>

lemma answer5_arrays_ok: "arrays_ok answer5"
  by (simp add: arrays_ok_def answer5_def)

lemma answer5_strings_ok: "strings_ok heap5 (msgs answer5) \<and> strings_ok heap5 (srvs answer5)"
  by (simp add: strings_ok_def answer5_def message_text_def heap5_def load_cstring_cstr NUL_def)

lemma answer5_counts:
  "buffer_count answer5 = 3 \<and> error_count heap5 answer5 = 3 \<and> message_count heap5 answer5 = 1"
  by (simp add: buffer_count_def error_count_def message_count_def error_reply_def
      normal_reply_def answer5_def message_text_def heap5_def load_cstring_cstr NUL_def)

lemma answer5_caches_ok: "caches_ok heap5 answer5"
  by (simp add: caches_ok_def answer5_def)

lemma answer5_text_at:
  "i < 5 \<Longrightarrow> message_text heap5 (msgs answer5 ! i) =
     [Some ''XPA$MESSAGE fits loaded'', Some ''XPA$ERROR no such file'', None,
      Some ''XPA$ERROR bad region'', Some ''XPA$ERROR timeout''] ! i"
proof -
  assume i: "i < 5"
  have "length (msgs answer5) = 5" by (simp add: answer5_def)
  with i have "message_text heap5 (msgs answer5 ! i) = map (message_text heap5) (msgs answer5) ! i"
    by simp
  then show ?thesis by (simp only: answer5_texts)
qed

lemma answer5_replies: "replies answer5 = 5"
  by (simp add: answer5_def)

lemma answer5_valid: "1 \<le> i \<Longrightarrow> i \<le> 5 \<Longrightarrow> valid_index answer5 (long_arg i)"
  by (simp add: valid_index_def long_arg_index long_arg_long answer5_replies resolve_index_def)

lemma answer5_slot: "1 \<le> i \<Longrightarrow> slot answer5 (long_arg i) = nat (i - 1)"
  by (simp add: slot_def long_arg_long answer5_replies resolve_index_def)

lemma answer1_ok:
  "arrays_ok answer1 \<and> strings_ok heap1 (msgs answer1) \<and> caches_ok heap1 answer1
   \<and> valid_index answer1 (long_arg 1) \<and> slot answer1 (long_arg 1) = 0
   \<and> message_text heap1 (msgs answer1 ! 0) = Some ''status unknown''"
  by (simp add: arrays_ok_def strings_ok_def caches_ok_def answer1_def message_text_def
      heap1_def load_cstring_cstr NUL_def valid_index_def long_arg_index long_arg_long
      resolve_index_def slot_def)

lemma answer5_lens_bufs:
  "lens answer5 = [4, 0, 0, 0, 2] \<and> bufs answer5 = [Some 10, None, Some 30, None, Some 50]"
  by (simp add: answer5_def)

lemma answer5_payload_1: "payload heap5 answer5 0 = Some ''abcd''"
  by (simp add: payload_def answer5_def load_bytes_def heap5_def)

lemma chars4_numeric: "numeric_array chars4 \<and> length (arg_data chars4) = 4"
  by (simp add: numeric_array_def chars4_def IS_NUMBER_def array_size_def Y_CHAR_def
      Y_COMPLEX_def sizeof_char_def)

lemma shorts3_numeric: "numeric_array shorts3 \<and> length (arg_data shorts3) = 6"
  by (simp add: numeric_array_def shorts3_def IS_NUMBER_def array_size_def Y_CHAR_def
      Y_SHORT_def Y_COMPLEX_def sizeof_short_def)

lemma dec_int_digits:
  "dec_int 0 = ''0''" "dec_int 1 = ''1''" "dec_int 3 = ''3''" "dec_int 5 = ''5''"
  by (simp_all add: dec_int_def dec_nat.simps)

lemma answer1_counts:
  "replies answer1 = 1 \<and> buffer_count answer1 = 1 \<and> error_count heap1 answer1 = 0
   \<and> message_count heap1 answer1 = 0"
  by (simp add: buffer_count_def error_count_def message_count_def error_reply_def
      normal_reply_def answer1_def message_text_def heap1_def load_cstring_cstr NUL_def)

lemma answer0_ok:
  "arrays_ok answer0 \<and> strings_ok h (msgs answer0) \<and> caches_ok h answer0
   \<and> replies answer0 = 0 \<and> buffer_count answer0 = 0 \<and> error_count h answer0 = 0
   \<and> message_count h answer0 = 0"
  by (simp add: arrays_ok_def strings_ok_def caches_ok_def buffer_count_def error_count_def
      message_count_def answer0_def)

lemma answer5_error_texts:
  "error_texts heap5 (msgs answer5) = [''no such file'', ''bad region'', ''timeout'']"
  by (simp add: answer5_def message_text_def heap5_def load_cstring_cstr NUL_def)

section \<open>The counts of buffers, errors and messages\<close>

text \<open>
  Claim C3.  For an answer whose arrays hold its replies and whose messages are readable,
  the member \<open>buffers\<close> is the number of records with a non-null buffer pointer, the
  member \<open>errors\<close> the number of records whose message begins with \<open>XPA$ERROR\<close> and the
  member \<open>messages\<close> the number of records whose message begins with \<open>XPA$MESSAGE\<close>;
  each access leaves the count in its field.
\<close>

theorem counts_of_replies:
  assumes "arrays_ok obj" and "strings_ok h (msgs obj)" and "caches_ok h obj"
  shows "extract_xpadata h obj ''buffers''
           = Inr (YLongV (int (buffer_count obj)), obj\<lparr>buffers := int (buffer_count obj)\<rparr>)
       \<and> extract_xpadata h obj ''errors''
           = Inr (YLongV (int (error_count h obj)), obj\<lparr>errors := int (error_count h obj)\<rparr>)
       \<and> extract_xpadata h obj ''messages''
           = Inr (YLongV (int (message_count h obj)),
                  obj\<lparr>messages := int (message_count h obj)\<rparr>)"
  using assms
  by (simp add: extract_xpadata_def get_buffers_value get_errors_value get_messages_value)

text \<open>On the answer of five replies: three buffers, three errors, one message.\<close>

theorem counts_of_replies_witness:
  "arrays_ok answer5 \<and> strings_ok heap5 (msgs answer5) \<and> caches_ok heap5 answer5
   \<and> extract_xpadata heap5 answer5 ''buffers'' = Inr (YLongV 3, answer5\<lparr>buffers := 3\<rparr>)
   \<and> extract_xpadata heap5 answer5 ''errors'' = Inr (YLongV 3, answer5\<lparr>errors := 3\<rparr>)
   \<and> extract_xpadata heap5 answer5 ''messages'' = Inr (YLongV 1, answer5\<lparr>messages := 1\<rparr>)"
  using counts_of_replies [OF answer5_arrays_ok conjunct1 [OF answer5_strings_ok] answer5_caches_ok]
    answer5_arrays_ok answer5_strings_ok answer5_caches_ok
  by (simp add: answer5_counts)

section \<open>The counts are computed once\<close>



section \<open>Calling the object with an index\<close>

text \<open>
  Claim C1.  Called with one scalar integer \<open>i\<close>, an answer of \<open>n\<close> replies takes
  \<open>i + n\<close> for the index when \<open>i \<le> 0\<close>; when the index so resolved is outside
  \<open>1..n\<close> the call fails with "out of range index", and otherwise it returns the status
  message of that reply, the null string when the reply has none.  With five replies,
  index 0 is reply 5, index -1 is reply 4 and index 6 is out of range.
\<close>

theorem relative_index_message:
  assumes "arrays_ok obj" and "strings_ok h (msgs obj)" and "index_arg a"
  shows "eval_xpadata h obj [a] =
           (if 1 \<le> resolve_index (replies obj) (arg_long a)
               \<and> resolve_index (replies obj) (arg_long a) \<le> replies obj
            then Inr (YStr (message_text h
                       (msgs obj ! nat (resolve_index (replies obj) (arg_long a) - 1))))
            else Inl (YError ''out of range index''))"
proof (cases "valid_index obj a")
  case True
  then have l: "slot obj a < length (msgs obj)"
    using slot_less [OF assms(1) True] assms(1) by (simp add: arrays_ok_def)
  have "push_string h (msgs obj ! slot obj a) (- 1)
          = Inr (YStr (message_text h (msgs obj ! slot obj a)))"
    by (rule push_string_message) (rule strings_ok_nth [OF assms(2) l])
  then show ?thesis
    using True l assms(3) int_type_not_void [of "arg_typeid a"]
    by (auto simp: eval_xpadata_def Let_def valid_index_def index_arg_def slot_def
        resolve_index_def nth_opt_def)
next
  case False
  then show ?thesis
    using assms(3) int_type_not_void [of "arg_typeid a"]
    by (auto simp: eval_xpadata_def Let_def valid_index_def index_arg_def resolve_index_def)
qed

theorem relative_index_message_witness:
  "arrays_ok answer5 \<and> strings_ok heap5 (msgs answer5) \<and> index_arg (long_arg 0)
   \<and> eval_xpadata heap5 answer5 [long_arg 0] = Inr (YStr (Some ''XPA$ERROR timeout''))
   \<and> eval_xpadata heap5 answer5 [long_arg (- 1)] = Inr (YStr (Some ''XPA$ERROR bad region''))
   \<and> eval_xpadata heap5 answer5 [long_arg 6] = Inl (YError ''out of range index'')
   \<and> eval_xpadata heap5 answer5 [long_arg 3] = Inr (YStr None)"
  using relative_index_message [OF answer5_arrays_ok conjunct1 [OF answer5_strings_ok]
      long_arg_index [of 0]]
    relative_index_message [OF answer5_arrays_ok conjunct1 [OF answer5_strings_ok]
      long_arg_index [of "- 1"]]
    relative_index_message [OF answer5_arrays_ok conjunct1 [OF answer5_strings_ok]
      long_arg_index [of 6]]
    relative_index_message [OF answer5_arrays_ok conjunct1 [OF answer5_strings_ok]
      long_arg_index [of 3]]
    answer5_arrays_ok answer5_strings_ok
  by (simp add: long_arg_index long_arg_long answer5_replies resolve_index_def answer5_text_at)

section \<open>The class of a reply\<close>

text \<open>
  Claim C2.  With a valid index and the key 0, the call returns 0 when the reply has no
  status message, 1 when the message begins with \<open>XPA$MESSAGE\<close>, 2 when it begins with
  \<open>XPA$ERROR\<close>, and 0 for any other message.
\<close>

theorem key_0_classification:
  assumes "arrays_ok obj" and "strings_ok h (msgs obj)" and "valid_index obj a"
    and "index_arg k" and "arg_long k = 0"
  shows "eval_xpadata h obj [a, k] =
           Inr (YIntV (case message_text h (msgs obj ! slot obj a) of
                         None \<Rightarrow> 0
                       | Some s \<Rightarrow>
                           if prefix ''XPA$MESSAGE'' s then 1
                           else if prefix ''XPA$ERROR'' s then 2 else 0))"
  by (rule eval_class [OF assms])

theorem key_0_classification_witness:
  "arrays_ok answer5 \<and> strings_ok heap5 (msgs answer5) \<and> valid_index answer5 (long_arg 1)
   \<and> index_arg (long_arg 0) \<and> arg_long (long_arg 0) = 0
   \<and> eval_xpadata heap5 answer5 [long_arg 1, long_arg 0] = Inr (YIntV 1)
   \<and> eval_xpadata heap5 answer5 [long_arg 2, long_arg 0] = Inr (YIntV 2)
   \<and> eval_xpadata heap5 answer5 [long_arg 3, long_arg 0] = Inr (YIntV 0)
   \<and> eval_xpadata heap1 answer1 [long_arg 1, long_arg 0] = Inr (YIntV 0)"
  using key_0_classification [OF answer5_arrays_ok conjunct1 [OF answer5_strings_ok]
      answer5_valid [of 1] long_arg_index [of 0] long_arg_long [of 0]]
    key_0_classification [OF answer5_arrays_ok conjunct1 [OF answer5_strings_ok]
      answer5_valid [of 2] long_arg_index [of 0] long_arg_long [of 0]]
    key_0_classification [OF answer5_arrays_ok conjunct1 [OF answer5_strings_ok]
      answer5_valid [of 3] long_arg_index [of 0] long_arg_long [of 0]]
    key_0_classification [of answer1 heap1 "long_arg 1" "long_arg 0"]
    answer5_arrays_ok answer5_strings_ok answer1_ok
  by (simp add: answer5_valid answer5_slot long_arg_index long_arg_long answer5_text_at)

section \<open>The data of a reply as bytes\<close>

text \<open>
  Claim C10.  With a valid index and the key 3, the call returns nil exactly when the
  stored length of the reply is zero.  The buffer pointer plays no part in that: with a
  zero length the result is nil whatever the pointer is, although the count of buffers
  is one more with a non-null pointer in the slot than with a null one.
\<close>

theorem key_3_nil_iff_zero_length:
  assumes "arrays_ok obj" and "valid_index obj a" and "index_arg k" and "arg_long k = 3"
  shows "(eval_xpadata h obj [a, k] = Inr YNil) = (lens obj ! slot obj a = 0)
       \<and> (lens obj ! slot obj a = 0 \<longrightarrow>
            (\<forall>p. eval_xpadata h (obj\<lparr>bufs := (bufs obj)[slot obj a := p]\<rparr>) [a, k] = Inr YNil)
            \<and> (\<forall>q. buffer_count (obj\<lparr>bufs := (bufs obj)[slot obj a := Some q]\<rparr>)
                   = Suc (buffer_count (obj\<lparr>bufs := (bufs obj)[slot obj a := None]\<rparr>))))"
proof -
  have l: "slot obj a < length (lens obj)" "slot obj a < length (bufs obj)"
    using slot_less [OF assms(1,2)] assms(1) by (simp_all add: arrays_ok_def)
  have e: "eval_xpadata h obj [a, k] =
        (if lens obj ! slot obj a > 0
         then (case load_bytes h (bufs obj ! slot obj a) (lens obj ! slot obj a) of
                 None \<Rightarrow> Inl Fault | Some bs \<Rightarrow> Inr (YChars bs))
         else Inr YNil)"
    by (simp add: eval_two_args [OF assms(1,2)] eval_key_int [OF assms(3)] assms(4)
        eval_key_3 [OF l])
  have first: "(eval_xpadata h obj [a, k] = Inr YNil) = (lens obj ! slot obj a = 0)"
    unfolding e by (auto split: option.splits)
  have second: "eval_xpadata h (obj\<lparr>bufs := (bufs obj)[slot obj a := p]\<rparr>) [a, k] = Inr YNil"
    if z: "lens obj ! slot obj a = 0" for p
  proof -
    let ?o = "obj\<lparr>bufs := (bufs obj)[slot obj a := p]\<rparr>"
    have ok: "arrays_ok ?o" using assms(1) by (simp add: arrays_ok_def)
    have v: "valid_index ?o a" using assms(2) by (simp add: valid_index_def)
    have s: "slot ?o a = slot obj a" by (simp add: slot_def)
    have l': "slot obj a < length (lens ?o)" "slot obj a < length (bufs ?o)"
      using l by simp_all
    show ?thesis
      using z
      by (simp add: eval_two_args [OF ok v] eval_key_int [OF assms(3)] assms(4)
          eval_key_3 [OF l'] s)
  qed
  have third: "buffer_count (obj\<lparr>bufs := (bufs obj)[slot obj a := Some q]\<rparr>)
                 = Suc (buffer_count (obj\<lparr>bufs := (bufs obj)[slot obj a := None]\<rparr>))" for q
  proof -
    have u: "(bufs obj)[slot obj a := x]
               = take (slot obj a) (bufs obj) @ x # drop (Suc (slot obj a)) (bufs obj)" for x
      using l(2) by (rule upd_conv_take_nth_drop)
    show ?thesis by (simp add: buffer_count_def u)
  qed
  from first second third show ?thesis by blast
qed

theorem key_3_nil_iff_zero_length_witness:
  "arrays_ok answer5 \<and> valid_index answer5 (long_arg 3) \<and> index_arg (long_arg 3)
   \<and> arg_long (long_arg 3) = 3
   \<and> bufs answer5 ! 2 = Some 30 \<and> lens answer5 ! 2 = 0
   \<and> eval_xpadata heap5 answer5 [long_arg 3, long_arg 3] = Inr YNil
   \<and> bufs answer5 ! 1 = None \<and> lens answer5 ! 1 = 0
   \<and> eval_xpadata heap5 answer5 [long_arg 2, long_arg 3] = Inr YNil
   \<and> eval_xpadata heap5 answer5 [long_arg 1, long_arg 3] \<noteq> Inr YNil"
  using key_3_nil_iff_zero_length [OF answer5_arrays_ok answer5_valid [of 3]
      long_arg_index [of 3] long_arg_long [of 3], of heap5]
    key_3_nil_iff_zero_length [OF answer5_arrays_ok answer5_valid [of 2]
      long_arg_index [of 3] long_arg_long [of 3], of heap5]
    key_3_nil_iff_zero_length [OF answer5_arrays_ok answer5_valid [of 1]
      long_arg_index [of 3] long_arg_long [of 3], of heap5]
    answer5_arrays_ok
  by (simp add: answer5_valid answer5_slot long_arg_index long_arg_long answer5_lens_bufs)

section \<open>Copying the data into an array of the caller\<close>

text \<open>
  With a valid index and a numeric array as the key (an argument of positive rank: a
  scalar is read as a key, never as an array), the call fails with "invalid array size"
  when the array's size in bytes differs from the stored length of the reply, and nothing
  is copied; when the sizes are equal and the reply's buffer holds that many bytes, the
  result is the caller's array with exactly those bytes as its contents.
\<close>

lemma copy_of_present_payload:
  assumes "arrays_ok obj" and "valid_index obj a" and "numeric_array arr"
  shows "(length (arg_data arr) \<noteq> lens obj ! slot obj a \<longrightarrow>
            eval_xpadata h obj [a, arr] = Inl (YError ''invalid array size''))
       \<and> (length (arg_data arr) = lens obj ! slot obj a \<longrightarrow>
            (\<forall>bs. payload h obj (slot obj a) = Some bs \<longrightarrow>
               eval_xpadata h obj [a, arr] = Inr (YSame (arr\<lparr>arg_data := bs\<rparr>))))"
proof -
  have l: "slot obj a < length (lens obj)" "slot obj a < length (bufs obj)"
    using slot_less [OF assms(1,2)] assms(1) by (simp_all add: arrays_ok_def)
  have sz: "array_size (arg_typeid arr) (arg_ntot arr) = Inr (length (arg_data arr))"
    using assms(3) by (simp add: numeric_array_def)
  have e: "eval_xpadata h obj [a, arr] = eval_copy h obj (slot obj a) arr"
    by (simp add: eval_two_args [OF assms(1,2)] eval_key_array [OF assms(3)])
  have len: "length bs = lens obj ! slot obj a" if "payload h obj (slot obj a) = Some bs" for bs
    using that by (auto simp: payload_def load_bytes_def split: option.splits if_splits)
  show ?thesis
    unfolding e
    using l sz len
    by (auto simp: eval_copy_def nth_opt_def payload_def)
qed

lemma copy_of_present_payload_example:
  "arrays_ok answer5 \<and> valid_index answer5 (long_arg 1)
   \<and> numeric_array chars4 \<and> numeric_array shorts3
   \<and> lens answer5 ! 0 = 4 \<and> payload heap5 answer5 0 = Some ''abcd''
   \<and> eval_xpadata heap5 answer5 [long_arg 1, chars4] = Inr (YSame (chars4\<lparr>arg_data := ''abcd''\<rparr>))
   \<and> eval_xpadata heap5 answer5 [long_arg 1, shorts3] = Inl (YError ''invalid array size'')"
  using copy_of_present_payload [OF answer5_arrays_ok answer5_valid [of 1]
      conjunct1 [OF chars4_numeric], of heap5]
    copy_of_present_payload [OF answer5_arrays_ok answer5_valid [of 1]
      conjunct1 [OF shorts3_numeric], of heap5]
    answer5_arrays_ok
  by (simp add: answer5_valid answer5_slot answer5_lens_bufs answer5_payload_1
      chars4_numeric shorts3_numeric)

text \<open>
  Claim C6.  The claim speaks of every answer, and it fails on an answer that the
  plug-in builds.  After an \<open>xpa_get\<close> that brought replies of four and two bytes, the
  answer of an \<open>xpa_set\<close> has no buffer and still the stored lengths four and two.  An
  array of four chars as the key for its first reply differs in size from the absent
  payload, yet the call does not fail with "invalid array size": the size equals the
  stale length and \<open>memcpy\<close> reads four bytes behind a null pointer.
\<close>

theorem stale_length_copy_faults:
  "map_sum id
     (\<lambda>(obj, st, h). (lens obj, bufs obj, length (arg_data chars4),
                       eval_xpadata h obj [long_arg 1, chars4]))
     set_after_get
   = Inr ([4, 2], [None, None], 4, Inl Fault)"
proof -
  obtain obj st h where v: "set_after_get = Inr (obj, st, h)" and f: "replies obj = 2"
    "lens obj = [4, 2]" "bufs obj = [None, None]" "length (srvs obj) = 2"
    "length (msgs obj) = 2"
    using set_after_get_value by blast
  have ok: "arrays_ok obj" using f by (simp add: arrays_ok_def)
  have ix: "valid_index obj (long_arg 1)" "slot obj (long_arg 1) = 0"
    using f(1)
    by (simp_all add: valid_index_def slot_def long_arg_index long_arg_long resolve_index_def)
  have "eval_xpadata h obj [long_arg 1, chars4] = eval_copy h obj 0 chars4"
    using eval_two_args [OF ok ix(1), of h chars4] eval_key_array [of chars4 h obj 0]
      chars4_numeric ix(2) by simp
  also have "\<dots> = Inl Fault"
    using chars4_numeric
    by (simp add: eval_copy_def nth_opt_def f numeric_array_def load_bytes_def)
  finally show ?thesis using chars4_numeric by (simp add: v f)
qed

text \<open>The same, read off the answer of the second call.\<close>

theorem stale_length_copy_faults_witness:
  "(case set_after_get of
      Inl e \<Rightarrow> False
    | Inr (obj, st, h) \<Rightarrow>
        lens obj ! 0 = 4 \<and> bufs obj ! 0 = None \<and> length (arg_data chars4) = 4
        \<and> eval_xpadata h obj [long_arg 1, chars4] = Inl Fault)"
proof -
  obtain obj st h where v: "set_after_get = Inr (obj, st, h)"
    using set_after_get_value by blast
  show ?thesis
    using stale_length_copy_faults by (simp add: v)
qed

section \<open>The summary line\<close>

text \<open>
  Claim C9.  The specification gives the line as
  \<open><N> replie(s), <B> buffer(s), <M> message(s), <E> error(s)\<close> with the nouns in the
  singular or the plural as their counts ask.  The object prints something else for an
  answer without replies: the line is enclosed in \<open>XPAData (\<close> and \<open>)\<close>, and a count
  of zero leaves its noun without the \<open>s\<close>.
\<close>

theorem summary_form_counterexample:
  "map_sum id fst (print_xpadata (\<lambda>a. None) answer0)
     = Inr ''XPAData (0 replie, 0 buffer, 0 message, 0 error)''
   \<and> spec_summary 0 0 0 0 = ''0 replies, 0 buffers, 0 messages, 0 errors''
   \<and> map_sum id fst (print_xpadata (\<lambda>a. None) answer0) \<noteq> Inr (spec_summary 0 0 0 0)"
  using print_xpadata_steps [of answer0 "\<lambda>a. None"] answer0_ok [of "\<lambda>a. None"]
  by (simp add: ARG_def spec_summary_def spec_noun_def dec_int_digits)

text \<open>
  Claim C9, amended.  The line is \<open>XPAData (\<close>, the counts of replies, buffers,
  messages and errors in that order, each followed by its noun, and \<open>)\<close>; a noun takes
  the \<open>s\<close> exactly when its count is at least two, so that the counts zero and one
  leave it bare.  The counts are those of the records, and printing leaves them in the
  fields of the object.
\<close>

theorem summary_rendering:
  assumes "arrays_ok obj" and "strings_ok h (msgs obj)" and "caches_ok h obj"
  shows "print_xpadata h obj =
           Inr (''XPAData ('' @ count_noun (replies obj) ''replie''
                  @ '', '' @ count_noun (int (buffer_count obj)) ''buffer''
                  @ '', '' @ count_noun (int (message_count h obj)) ''message''
                  @ '', '' @ count_noun (int (error_count h obj)) ''error'' @ '')'',
                obj\<lparr>buffers := int (buffer_count obj), errors := int (error_count h obj),
                    messages := int (message_count h obj)\<rparr>)"
  by (simp add: print_xpadata_steps [OF assms] ARG_def count_noun_def)

theorem summary_rendering_witness:
  "arrays_ok answer5 \<and> strings_ok heap5 (msgs answer5) \<and> caches_ok heap5 answer5
   \<and> print_xpadata heap5 answer5 =
        Inr (''XPAData (5 replies, 3 buffers, 1 message, 3 errors)'',
             answer5\<lparr>buffers := 3, errors := 3, messages := 1\<rparr>)
   \<and> print_xpadata heap1 answer1 =
        Inr (''XPAData (1 replie, 1 buffer, 0 message, 0 error)'',
             answer1\<lparr>buffers := 1, errors := 0, messages := 0\<rparr>)"
  using summary_rendering [OF answer5_arrays_ok conjunct1 [OF answer5_strings_ok]
      answer5_caches_ok]
    summary_rendering [of answer1 heap1]
    answer5_arrays_ok answer5_strings_ok answer5_caches_ok answer1_ok
  by (simp add: answer5_counts answer5_replies answer1_counts count_noun_def dec_int_digits)

section \<open>Checking an answer for errors\<close>

text \<open>
  Claim C8.  \<open>xpa_check\<close> does nothing on an answer without error messages.  Otherwise
  its message is the first error message when \<open>onlyfirst\<close> is set and all the error
  messages joined by \<open>"; "\<close> when it is not, each message without its first ten
  characters; called as a subroutine it raises that message, called as a function it
  returns it.  There are as many error messages as the count of errors says.
\<close>

theorem check_for_errors:
  assumes "arrays_ok obj" and "strings_ok h (msgs obj)" and "caches_ok h obj"
  shows "length (error_texts h (msgs obj)) = error_count h obj
       \<and> (error_count h obj = 0 \<longrightarrow>
            xpa_check h obj onlyfirst am_subroutine = Inr (YNil, obj\<lparr>errors := 0\<rparr>))
       \<and> (error_count h obj > 0 \<longrightarrow>
            xpa_check h obj True False
              = Inr (YStr (Some (hd (error_texts h (msgs obj)))),
                     obj\<lparr>errors := int (error_count h obj)\<rparr>)
          \<and> xpa_check h obj True True = Inl (YError (hd (error_texts h (msgs obj))))
          \<and> xpa_check h obj False False
              = Inr (YStr (Some (joined (error_texts h (msgs obj)))),
                     obj\<lparr>errors := int (error_count h obj)\<rparr>)
          \<and> xpa_check h obj False True = Inl (YError (joined (error_texts h (msgs obj)))))"
  using xpa_check_nothing [OF assms] xpa_check_value [OF assms]
  by (simp add: length_error_texts error_count_def)

theorem check_for_errors_witness:
  "arrays_ok answer5 \<and> strings_ok heap5 (msgs answer5) \<and> caches_ok heap5 answer5
   \<and> error_count heap5 answer5 = 3
   \<and> xpa_check heap5 answer5 True False
        = Inr (YStr (Some ''no such file''), answer5\<lparr>errors := 3\<rparr>)
   \<and> xpa_check heap5 answer5 True True = Inl (YError ''no such file'')
   \<and> xpa_check heap5 answer5 False False
        = Inr (YStr (Some ''no such file; bad region; timeout''), answer5\<lparr>errors := 3\<rparr>)
   \<and> xpa_check heap5 answer5 False True = Inl (YError ''no such file; bad region; timeout'')
   \<and> error_count heap1 answer1 = 0
   \<and> xpa_check heap1 answer1 False True = Inr (YNil, answer1\<lparr>errors := 0\<rparr>)"
  using check_for_errors [OF answer5_arrays_ok conjunct1 [OF answer5_strings_ok]
      answer5_caches_ok]
    check_for_errors [of answer1 heap1 False True]
    answer5_arrays_ok answer5_strings_ok answer5_caches_ok answer1_ok
  by (simp add: answer5_counts answer1_counts answer5_error_texts)

section \<open>The hand-over from the static arrays to the answer\<close>

text \<open>
  Claim C5.  Unless a signal is pending (\<open>push_xpadata\<close> then aborts before it touches
  anything), \<open>push_xpadata\<close> on static arrays holding \<open>n\<close> replies builds the answer of
  those \<open>n\<close> records in their order, leaves \<open>NULL\<close> in the \<open>n\<close> slots of the three static
  arrays of pointers and sets the number of held replies to zero.  The answer owns
  exactly the pointers that were held; afterwards nothing is held, so no pointer is held
  by the static arrays and owned by the answer, and \<open>clear_static_arrays\<close> leaves the
  static arrays and every heap as they are: it frees nothing.
\<close>

theorem ownership_moves_to_answer:
  assumes "statics_ok st"
  shows "push_xpadata False st = Inr (emptied st, moved_answer st)
       \<and> owned (moved_answer st) = held st
       \<and> (\<forall>i < nat (static_replies st).
             static_bufs (emptied st) ! i = None \<and> static_srvs (emptied st) ! i = None
             \<and> static_msgs (emptied st) ! i = None)
       \<and> static_replies (emptied st) = 0
       \<and> held (emptied st) = {}
       \<and> held (emptied st) \<inter> owned (moved_answer st) = {}
       \<and> (\<forall>h. clear_static_arrays False (emptied st, h) = Inr (emptied st, h))"
proof -
  have r: "static_replies (emptied st) = 0" by (simp add: emptied_def Let_def)
  have h: "held (emptied st) = {}" by (simp add: held_def r pointers_def map_filter_simps)
  have o: "owned (moved_answer st) = held st"
    by (simp add: owned_def held_def moved_answer_def Let_def)
  show ?thesis
    using push_xpadata_result [OF assms] emptied_slots [of _ st] clear_nothing_held [OF r]
    by (simp add: r h o)
qed

theorem ownership_moves_to_answer_witness:
  "statics_ok statics2
   \<and> push_xpadata False statics2 =
       Inr (statics2\<lparr>static_bufs := replicate 100 None, static_msgs := replicate 100 None,
                     static_srvs := replicate 100 None, static_replies := 0\<rparr>,
            \<lparr>lens = [4, 0], bufs = [Some 10, None], srvs = [Some 11, Some 21],
             msgs = [Some 12, Some 22], replies = 2, buffers = - 1, messages = - 1,
             errors = - 1\<rparr>)
   \<and> held statics2 = {10, 11, 21, 12, 22}
   \<and> owned (moved_answer statics2) = {10, 11, 21, 12, 22}
   \<and> held (emptied statics2) = {}
   \<and> clear_static_arrays False (emptied statics2, heap5) = Inr (emptied statics2, heap5)"
proof -
  have ok: "statics_ok statics2" by (simp add: statics_ok_def statics2_def NMAX_def)
  have r: "replicate 100 None = None # None # replicate 98 (None :: ptr)"
    by (simp add: numeral_eq_Suc)
  have e: "emptied statics2 =
             statics2\<lparr>static_bufs := replicate 100 None, static_msgs := replicate 100 None,
                       static_srvs := replicate 100 None, static_replies := 0\<rparr>"
    by (simp add: emptied_def statics2_def r numeral_eq_Suc)
  have m: "moved_answer statics2 =
             \<lparr>lens = [4, 0], bufs = [Some 10, None], srvs = [Some 11, Some 21],
              msgs = [Some 12, Some 22], replies = 2, buffers = - 1, messages = - 1,
              errors = - 1\<rparr>"
    by (simp add: moved_answer_def statics2_def numeral_eq_Suc)
  have hd: "held statics2 = {10, 11, 21, 12, 22}"
    by (simp add: held_def statics2_def pointers_def map_filter_simps numeral_eq_Suc)
  show ?thesis
    using ownership_moves_to_answer [OF ok] ok hd
    by (simp add: e m)
qed

section \<open>The maximum number of recipients\<close>

text \<open>
  Claim C7.  The documentation of \<open>xpa_get\<close> and \<open>xpa_set\<close> promises a keyword \<open>nmax\<close>
  with the default 1.  The built-in functions read no keyword and hand the constant
  \<open>NMAX\<close> to the library: with two servers behind the access point a call without
  \<open>nmax\<close> collects two replies, for \<open>xpa_get\<close> and for \<open>xpa_set\<close> alike.  A keyword
  and its value are two more entries on the stack, so that \<open>xpa_get\<close> with an access
  point and \<open>nmax\<close> is refused for its number of arguments.
\<close>

theorem default_call_gets_two_replies:
  "map_sum id (\<lambda>(obj, st, h). replies obj)
     (Y_xpaget two_servers [string_arg ''*''] (statics0, Map.empty)) = Inr 2
   \<and> map_sum id (\<lambda>(obj, st, h). replies obj)
     (Y_xpaset two_servers [string_arg ''*''] (statics0, Map.empty)) = Inr 2
   \<and> Y_xpaget lib [a, k, v] sh = Inl (YError ''expecting 1 or 2 arguments'')"
proof -
  have g: "\<exists>st4 obj h'. Y_xpaget two_servers [string_arg ''*''] (statics0, Map.empty)
             = Inr (obj, st4, h') \<and> replies obj = 2"
    using Y_xpaget_max_recipients [of "string_arg ''*''" statics0 two_servers 1 Map.empty 2]
    by (simp add: string_arg_scalar statics0_def two_servers_def NMAX_def statics_ok_def)
      blast
  have s: "\<exists>st4 obj h'. Y_xpaset two_servers [string_arg ''*''] (statics0, Map.empty)
             = Inr (obj, st4, h') \<and> replies obj = 2"
    using Y_xpaset_max_recipients [of "string_arg ''*''" statics0 two_servers 1 Map.empty 2]
    by (simp add: string_arg_scalar statics0_def two_servers_def NMAX_def statics_ok_def)
      blast
  have k: "Y_xpaget lib [a, k, v] sh = Inl (YError ''expecting 1 or 2 arguments'')"
    by (simp add: Y_xpaget_def)
  from g s k show ?thesis by auto
qed

end
